theory Spec2Isabelle
  imports Main "HOL-Library.Word"
begin

section \<open>The self-refreshing resource fetcher (component/resource/fetcher.go)\<close>

text \<open>
  A shallow embedding of \<^verbatim>\<open>Fetcher[V]\<close>. The struct becomes a record that is passed
  through every operation and returned updated. Everything the fetcher does to the
  outside (source reads, parser calls, mirror writes, callback invocations, watcher and
  goroutine start-up) is appended to a ghost field \<open>trace\<close>, so that "the callback is
  not invoked" is a statement about a list. The answers of the collaborators (the
  vehicle, the operating system, the watcher library, the hash function) are taken from
  an environment record, one per call; clock readings are explicit arguments.
\<close>

subsection \<open>Data\<close>

type_synonym bytes = "8 word list"

text \<open>A Go \<^verbatim>\<open>[]byte\<close> can be \<^verbatim>\<open>nil\<close>: \<open>None\<close>. A Go \<^verbatim>\<open>error\<close> is
  \<open>error option\<close>, \<open>None\<close> for \<^verbatim>\<open>nil\<close>.\<close>

type_synonym error = string

text \<open>\<^verbatim>\<open>time.Time\<close> as nanoseconds on an unbounded line; \<^verbatim>\<open>time.Duration\<close> is an
  \<^verbatim>\<open>int64\<close> of nanoseconds, compared as a signed number.\<close>

type_synonym Time = int
type_synonym Duration = "64 word"

text \<open>The code only asks whether the vehicle's type is \<^verbatim>\<open>types.File\<close>; the
  enumeration itself is declared in another package (constant/provider), so every other
  kind is \<open>Remote\<close> here.\<close>

datatype VehicleType = File | Remote

datatype ('v, 'h) event =
    EvRead 'h              \<comment> \<open>\<^verbatim>\<open>vehicle.Read(ctx, oldHash)\<close>\<close>
  | EvParse bytes          \<comment> \<open>\<^verbatim>\<open>parser(buf)\<close>\<close>
  | EvWrite bytes          \<comment> \<open>\<^verbatim>\<open>vehicle.Write(buf)\<close>\<close>
  | EvChtimes Time Time    \<comment> \<open>\<^verbatim>\<open>os.Chtimes(path, atime, mtime)\<close>\<close>
  | EvOnUpdate 'v          \<comment> \<open>\<^verbatim>\<open>onUpdate(contents)\<close>\<close>
  | EvStat                 \<comment> \<open>\<^verbatim>\<open>os.Stat(path)\<close>\<close>
  | EvReadFile             \<comment> \<open>\<^verbatim>\<open>os.ReadFile(path)\<close>\<close>
  | EvNewWatcher           \<comment> \<open>\<^verbatim>\<open>fswatch.NewWatcher\<close>\<close>
  | EvWatcherStart         \<comment> \<open>\<^verbatim>\<open>watcher.Start()\<close>\<close>
  | EvWatcherClose         \<comment> \<open>\<^verbatim>\<open>watcher.Close()\<close>\<close>
  | EvGoPullLoop bool      \<comment> \<open>\<^verbatim>\<open>go f.pullLoop(forceUpdate)\<close>\<close>

text \<open>
  The fields of \<^verbatim>\<open>Fetcher[V]\<close> that the operations read or write. \<open>ctxDone\<close> is
  whether \<^verbatim>\<open>ctxCancel\<close> has run, \<open>onUpdate\<close> whether the callback is non-nil,
  \<open>watcher\<close> whether the watcher pointer is non-nil, \<open>attempt\<close> the counter inside
  \<^verbatim>\<open>backoff\<close>. The fingerprint type \<^verbatim>\<open>utils.HashType\<close> is the type variable
  \<open>'h\<close>.
\<close>

record ('v, 'h) Fetcher =
  ctxDone   :: bool
  updatedAt :: Time
  hash      :: 'h
  parser    :: "bytes \<Rightarrow> error + 'v"
  interval  :: Duration
  onUpdate  :: bool
  watcher   :: bool
  attempt   :: nat
  trace     :: "('v, 'h) event list"

text \<open>
  What the collaborators answer during one call: \<open>Empty\<close> is \<^verbatim>\<open>lo.Empty[V]()\<close>, the
  zero value of \<open>V\<close>; \<open>MakeHash\<close> is \<^verbatim>\<open>utils.MakeHash\<close>; \<open>vehicleRead\<close> gets the
  fingerprint passed to \<^verbatim>\<open>Read\<close>; \<open>osStat\<close> is the modification time when
  \<^verbatim>\<open>os.Stat\<close> succeeds; \<open>osReadFile\<close> is the buffer \<^verbatim>\<open>os.ReadFile\<close> returns
  (its error is overwritten in \<^verbatim>\<open>Initial\<close> before anyone reads it); \<open>ForAttempt\<close>
  is \<^verbatim>\<open>backoff.ForAttempt\<close>, left arbitrary.
\<close>

record ('v, 'h) Env =
  Empty        :: 'v
  MakeHash     :: "bytes \<Rightarrow> 'h"
  vehicleType  :: VehicleType
  vehicleRead  :: "'h \<Rightarrow> error + (bytes option \<times> 'h)"
  vehicleWrite :: "bytes \<Rightarrow> error option"
  osStat       :: "Time option"
  osReadFile   :: "bytes option"
  newWatcher   :: "error option"
  watcherStart :: "error option"
  ForAttempt   :: "nat \<Rightarrow> Duration"

type_synonym ('v, 'h) result = "'v \<times> bool \<times> error option \<times> ('v, 'h) Fetcher"

definition emit :: "('v, 'h) event list \<Rightarrow> ('v, 'h) Fetcher \<Rightarrow> ('v, 'h) Fetcher" where
  "emit evs f = f\<lparr>trace := trace f @ evs\<rparr>"

text \<open>The events a call added to the trace.\<close>

definition newEvents :: "('v, 'h) Fetcher \<Rightarrow> ('v, 'h) Fetcher \<Rightarrow> ('v, 'h) event list" where
  "newEvents f f' = drop (length (trace f)) (trace f')"

fun isOnUpdate :: "('v, 'h) event \<Rightarrow> bool" where
  "isOnUpdate (EvOnUpdate v) = True"
| "isOnUpdate _ = False"

fun isRead :: "('v, 'h) event \<Rightarrow> bool" where
  "isRead (EvRead h) = True"
| "isRead _ = False"

subsection \<open>The backoff counter\<close>

text \<open>
  Modelled from the spec: \<^verbatim>\<open>slowdown.Backoff\<close> is defined in another package
  (component/slowdown), outside the sources embedded here. The spec's Backoff Scheduler: "\<^verbatim>\<open>AddAttempt()\<close> increments the counter; \<^verbatim>\<open>Reset()\<close>
  zeroes it", and \<^verbatim>\<open>Attempt()\<close> reports it.
\<close>

definition AddAttempt :: "('v, 'h) Fetcher \<Rightarrow> ('v, 'h) Fetcher" where
  "AddAttempt f = f\<lparr>attempt := attempt f + 1\<rparr>"

definition Reset :: "('v, 'h) Fetcher \<Rightarrow> ('v, 'h) Fetcher" where
  "Reset f = f\<lparr>attempt := 0\<rparr>"

subsection \<open>The commit step and its two entry points\<close>

text \<open>
  Modelled from the spec: \<^verbatim>\<open>HashType.Equal\<close> is defined in another package
  (common/utils), outside the sources embedded here; "the fingerprint equals the stored
  fingerprint" is equality of the two values.
\<close>

definition hashEqual :: "'h \<Rightarrow> 'h \<Rightarrow> bool" where
  "hashEqual a b = (a = b)"

text \<open>\<^verbatim>\<open>loadBuf(buf, hash, updateFile)\<close>, with \<open>now\<close> the reading of
  \<^verbatim>\<open>time.Now()\<close> at its start. The mutex is not modelled: one call runs at a time.\<close>

definition loadBuf ::
  "('v, 'h) Env \<Rightarrow> bytes option \<Rightarrow> 'h \<Rightarrow> bool \<Rightarrow> Time \<Rightarrow> ('v, 'h) Fetcher \<Rightarrow> ('v, 'h) result"
where
  "loadBuf env buf h updateFile now f =
    (if hashEqual (hash f) h then
       (let f1 = (if updateFile then emit [EvChtimes now now] f else f);
            f2 = f1\<lparr>updatedAt := now\<rparr>;
            f3 = Reset f2
        in (Empty env, True, None, f3))
     else case buf of
       None \<Rightarrow> (Empty env, True, None, f)
     | Some b \<Rightarrow>
        (case parser f b of
           Inl err \<Rightarrow> (Empty env, False, Some err, AddAttempt (emit [EvParse b] f))
         | Inr contents \<Rightarrow>
            (let f1 = Reset (emit [EvParse b] f) in
             case (if updateFile then vehicleWrite env b else None) of
               Some err \<Rightarrow> (Empty env, False, Some err, emit [EvWrite b] f1)
             | None \<Rightarrow>
                (let f2 = (if updateFile then emit [EvWrite b] f1 else f1);
                     f3 = f2\<lparr>updatedAt := now, hash := h\<rparr>;
                     f4 = (if onUpdate f3 then emit [EvOnUpdate contents] f3 else f3)
                 in (contents, False, None, f4)))))"

text \<open>\<^verbatim>\<open>Update()\<close>: read the source with the stored fingerprint, then commit.\<close>

definition Update :: "('v, 'h) Env \<Rightarrow> Time \<Rightarrow> ('v, 'h) Fetcher \<Rightarrow> ('v, 'h) result" where
  "Update env now f =
    (let f1 = emit [EvRead (hash f)] f in
     case vehicleRead env (hash f) of
       Inl err \<Rightarrow> (Empty env, False, Some err, AddAttempt f1)
     | Inr (buf, h) \<Rightarrow> loadBuf env buf h (vehicleType env \<noteq> File) now f1)"

text \<open>\<^verbatim>\<open>utils.MakeHash\<close> of a nil slice hashes no bytes.\<close>

definition bytesOf :: "bytes option \<Rightarrow> bytes" where
  "bytesOf buf = (case buf of None \<Rightarrow> [] | Some b \<Rightarrow> b)"

text \<open>\<^verbatim>\<open>SideUpdate(buf)\<close>: commit bytes pushed in by the caller.\<close>

definition SideUpdate ::
  "('v, 'h) Env \<Rightarrow> bytes option \<Rightarrow> Time \<Rightarrow> ('v, 'h) Fetcher \<Rightarrow> ('v, 'h) result"
where
  "SideUpdate env buf now f = loadBuf env buf (MakeHash env (bytesOf buf)) True now f"

subsection \<open>Starting the refresh driver\<close>

text \<open>
  \<^verbatim>\<open>startPullLoop(forceUpdate)\<close>: a File vehicle gets a watcher and nothing else (the
  flag is not looked at); any other vehicle gets the poll-loop goroutine when
  \<^verbatim>\<open>interval > 0\<close>, and nothing at all otherwise. A failed \<^verbatim>\<open>NewWatcher\<close> is taken
  to hand back a nil watcher.
\<close>

definition startPullLoop ::
  "('v, 'h) Env \<Rightarrow> bool \<Rightarrow> ('v, 'h) Fetcher \<Rightarrow> error option \<times> ('v, 'h) Fetcher"
where
  "startPullLoop env forceUpdate f =
    (if vehicleType env = File then
       (case newWatcher env of
          Some err \<Rightarrow> (Some err, (emit [EvNewWatcher] f)\<lparr>watcher := False\<rparr>)
        | None \<Rightarrow>
           (let f1 = (emit [EvNewWatcher] f)\<lparr>watcher := True\<rparr> in
            case watcherStart env of
              Some err \<Rightarrow> (Some err, emit [EvWatcherStart] f1)
            | None \<Rightarrow> (None, emit [EvWatcherStart] f1)))
     else if 0 <s interval f then (None, emit [EvGoPullLoop forceUpdate] f)
     else (None, f))"

subsection \<open>Bootstrap\<close>

text \<open>\<^verbatim>\<open>time.Since(t)\<close> is \<^verbatim>\<open>time.Now().Sub(t)\<close>, which the Go library documents as
  saturating at the largest and the smallest \<^verbatim>\<open>Duration\<close>.\<close>

definition Since :: "Time \<Rightarrow> Time \<Rightarrow> Duration" where
  "Since now t =
    (let d = now - t in
     if d > 2 ^ 63 - 1 then word_of_int (2 ^ 63 - 1)
     else if d < - (2 ^ 63) then word_of_int (- (2 ^ 63))
     else word_of_int d)"

text \<open>The tail of \<^verbatim>\<open>Initial\<close> (from "fallback to remote" on): one \<^verbatim>\<open>Update\<close>, then
  \<^verbatim>\<open>startPullLoop(false)\<close> whatever the update said, then the errors in that order.\<close>

definition Initial_remote ::
  "('v, 'h) Env \<Rightarrow> Time \<Rightarrow> ('v, 'h) Fetcher \<Rightarrow> 'v \<times> error option \<times> ('v, 'h) Fetcher"
where
  "Initial_remote env nowUpd f =
    (case Update env nowUpd f of (contents, same, updateErr, f1) \<Rightarrow>
     case startPullLoop env False f1 of (err, f2) \<Rightarrow>
       (case err of
          Some e \<Rightarrow> (Empty env, Some e, f2)
        | None \<Rightarrow>
           (case updateErr of
              Some e \<Rightarrow> (Empty env, Some e, f2)
            | None \<Rightarrow> (contents, None, f2))))"

text \<open>The state \<^verbatim>\<open>Initial\<close> is in after its attempt on the local file, when the file
  exists: the file went through \<^verbatim>\<open>loadBuf\<close> without persisting, and \<^verbatim>\<open>updatedAt\<close>
  was then overwritten with the file's modification time.\<close>

definition Initial_local ::
  "('v, 'h) Env \<Rightarrow> Time \<Rightarrow> Time \<Rightarrow> ('v, 'h) Fetcher \<Rightarrow> ('v, 'h) result"
where
  "Initial_local env modTime nowLoad f =
    (let buf = osReadFile env in
     case loadBuf env buf (MakeHash env (bytesOf buf)) False nowLoad (emit [EvStat, EvReadFile] f)
     of (contents, same, err, f1) \<Rightarrow> (contents, same, err, f1\<lparr>updatedAt := modTime\<rparr>))"

text \<open>\<^verbatim>\<open>Initial()\<close>. The three clock readings are those of \<^verbatim>\<open>loadBuf\<close> on the local
  file, of \<^verbatim>\<open>time.Since(modTime)\<close>, and of the \<^verbatim>\<open>loadBuf\<close> inside the fallback
  \<^verbatim>\<open>Update\<close>.\<close>

definition Initial ::
  "('v, 'h) Env \<Rightarrow> Time \<Rightarrow> Time \<Rightarrow> Time \<Rightarrow> ('v, 'h) Fetcher
     \<Rightarrow> 'v \<times> error option \<times> ('v, 'h) Fetcher"
where
  "Initial env nowLoad nowSince nowUpd f =
    (case osStat env of
       None \<Rightarrow> Initial_remote env nowUpd (emit [EvStat] f)
     | Some modTime \<Rightarrow>
        (case Initial_local env modTime nowLoad f of (contents, same, err, f2) \<Rightarrow>
           if err = None then
             (case startPullLoop env (interval f2 <s Since nowSince modTime) f2 of (e, f3) \<Rightarrow>
                (case e of
                   Some x \<Rightarrow> (Empty env, Some x, f3)
                 | None \<Rightarrow> (contents, None, f3)))
           else Initial_remote env nowUpd f2))"

subsection \<open>The poll loop\<close>

text \<open>\<^verbatim>\<open>updateWithLog()\<close>: an \<^verbatim>\<open>Update\<close> whose result only goes to the log.\<close>

definition updateWithLog :: "('v, 'h) Env \<Rightarrow> Time \<Rightarrow> ('v, 'h) Fetcher \<Rightarrow> ('v, 'h) Fetcher" where
  "updateWithLog env now f = (case Update env now f of (contents, same, err, f1) \<Rightarrow> f1)"

text \<open>The step both places of \<^verbatim>\<open>pullLoop\<close> apply to a computed delay: with a nonzero
  attempt counter, the backoff delay for that attempt is taken when it is smaller.\<close>

definition withBackoff :: "('v, 'h) Env \<Rightarrow> ('v, 'h) Fetcher \<Rightarrow> Duration \<Rightarrow> Duration" where
  "withBackoff env f d =
    (if attempt f > 0 then
       (let duration = ForAttempt env (attempt f) in if duration <s d then duration else d)
     else d)"

text \<open>\<^verbatim>\<open>pullLoop\<close> up to \<^verbatim>\<open>time.NewTimer\<close>: the delay is computed from the state on
  entry, then the forced update runs, then the backoff looks at the counter.\<close>

definition pullLoop_start ::
  "('v, 'h) Env \<Rightarrow> Time \<Rightarrow> Time \<Rightarrow> bool \<Rightarrow> ('v, 'h) Fetcher \<Rightarrow> Duration \<times> ('v, 'h) Fetcher"
where
  "pullLoop_start env nowSince nowUpd forceUpdate f =
    (let initialInterval = interval f - Since nowSince (updatedAt f);
         initialInterval' = (if interval f <s initialInterval then interval f else initialInterval);
         f1 = (if forceUpdate then updateWithLog env nowUpd f else f)
     in (withBackoff env f1 initialInterval', f1))"

text \<open>One firing of the timer: the update, then the argument of \<^verbatim>\<open>timer.Reset\<close>.\<close>

definition pullLoop_tick ::
  "('v, 'h) Env \<Rightarrow> Time \<Rightarrow> ('v, 'h) Fetcher \<Rightarrow> Duration \<times> ('v, 'h) Fetcher"
where
  "pullLoop_tick env now f =
    (let f1 = updateWithLog env now f in (withBackoff env f1 (interval f1), f1))"

text \<open>The firings of the timer before the context is cancelled, each with what the
  collaborators answer then and the clock reading of its commit; the loop returns the
  waits it has armed the timer with.\<close>

fun pullLoop_ticks ::
  "(('v, 'h) Env \<times> Time) list \<Rightarrow> ('v, 'h) Fetcher \<Rightarrow> Duration list \<times> ('v, 'h) Fetcher"
where
  "pullLoop_ticks [] f = ([], f)"
| "pullLoop_ticks ((env, now) # rest) f =
    (case pullLoop_tick env now f of (w, f1) \<Rightarrow>
     case pullLoop_ticks rest f1 of (ws, f2) \<Rightarrow> (w # ws, f2))"

definition pullLoop ::
  "('v, 'h) Env \<Rightarrow> Time \<Rightarrow> Time \<Rightarrow> bool \<Rightarrow> (('v, 'h) Env \<times> Time) list \<Rightarrow> ('v, 'h) Fetcher
     \<Rightarrow> Duration list \<times> ('v, 'h) Fetcher"
where
  "pullLoop env nowSince nowUpd forceUpdate ticks f =
    (case pullLoop_start env nowSince nowUpd forceUpdate f of (w, f1) \<Rightarrow>
     case pullLoop_ticks ticks f1 of (ws, f2) \<Rightarrow> (w # ws, f2))"

text \<open>\<^verbatim>\<open>Close()\<close>: cancel the context and close the watcher if there is one. It
  does not stop the timer of the poll loop and does not wait for the loop's goroutine.\<close>

definition Close :: "('v, 'h) Fetcher \<Rightarrow> error option \<times> ('v, 'h) Fetcher" where
  "Close f =
    (let f1 = f\<lparr>ctxDone := True\<rparr> in
     (None, if watcher f1 then emit [EvWatcherClose] f1 else f1))"

text \<open>
  One pass through \<^verbatim>\<open>for { select { ... } }\<close> in \<^verbatim>\<open>pullLoop\<close>. The statement has
  two cases, \<^verbatim>\<open><-timer.C\<close> and \<^verbatim>\<open><-f.ctx.Done()\<close>; a case can be taken when its
  channel is ready, and when both are ready Go takes either. Which one is taken is the
  argument \<open>c\<close>; \<open>timerFired\<close> says whether the timer has expired. The timer case
  runs the tick and goes round again (\<open>Some\<close> of the next wait), the other returns from
  the loop; nothing looks at the context between the \<^verbatim>\<open>select\<close> and
  \<^verbatim>\<open>updateWithLog\<close>. A case that is not ready cannot be taken: \<open>None\<close>.
\<close>

datatype selectCase = TimerC | CtxDone

definition selectReady :: "bool \<Rightarrow> ('v, 'h) Fetcher \<Rightarrow> selectCase \<Rightarrow> bool" where
  "selectReady timerFired f c = (case c of TimerC \<Rightarrow> timerFired | CtxDone \<Rightarrow> ctxDone f)"

definition pullLoop_select ::
  "('v, 'h) Env \<Rightarrow> Time \<Rightarrow> bool \<Rightarrow> selectCase \<Rightarrow> ('v, 'h) Fetcher
     \<Rightarrow> (Duration option \<times> ('v, 'h) Fetcher) option"
where
  "pullLoop_select env now timerFired c f =
    (if \<not> selectReady timerFired f c then None
     else case c of
       TimerC \<Rightarrow> (case pullLoop_tick env now f of (w, f1) \<Rightarrow> Some (Some w, f1))
     | CtxDone \<Rightarrow> Some (None, f))"

subsection \<open>The components of a result\<close>

definition valOf :: "('v, 'h) result \<Rightarrow> 'v" where
  "valOf r = fst r"

definition sameOf :: "('v, 'h) result \<Rightarrow> bool" where
  "sameOf r = fst (snd r)"

definition errOf :: "('v, 'h) result \<Rightarrow> error option" where
  "errOf r = fst (snd (snd r))"

definition after :: "('v, 'h) result \<Rightarrow> ('v, 'h) Fetcher" where
  "after r = snd (snd (snd r))"

subsection \<open>A concrete fetcher\<close>

text \<open>
  A small instance to run the model on: values and fingerprints are numbers, the
  fingerprint of a buffer is its length (so different buffers can share one), the parser
  refuses the empty buffer, the source is remote and answers the two bytes 1, 2.
\<close>

definition demoEnv :: "(nat, nat) Env" where
  "demoEnv =
    \<lparr>Empty = 0, MakeHash = length, vehicleType = Remote,
     vehicleRead = (\<lambda>h. Inr (Some [1, 2], 2)), vehicleWrite = (\<lambda>b. None),
     osStat = Some 0, osReadFile = Some [1], newWatcher = None, watcherStart = None,
     ForAttempt = (\<lambda>n. 10)\<rparr>"

definition demoFetcher :: "(nat, nat) Fetcher" where
  "demoFetcher =
    \<lparr>ctxDone = False, updatedAt = 0, hash = 0,
     parser = (\<lambda>b. if b = [] then Inl ''empty'' else Inr (length b + 40)),
     interval = 100, onUpdate = True, watcher = False, attempt = 0, trace = []\<rparr>"

subsection \<open>Which branch the commit step takes\<close>

text \<open>The two branches of \<^verbatim>\<open>loadBuf\<close> that the attempt counter tells apart from the
  rest: the early return for a nil buffer under a changed fingerprint, and the return
  after a parser error.\<close>

definition absentBranch :: "('v, 'h) Fetcher \<Rightarrow> bytes option \<Rightarrow> 'h \<Rightarrow> bool" where
  "absentBranch f buf h = (\<not> hashEqual (hash f) h \<and> buf = None)"

definition parseFails :: "('v, 'h) Fetcher \<Rightarrow> bytes option \<Rightarrow> 'h \<Rightarrow> bool" where
  "parseFails f buf h =
     (\<not> hashEqual (hash f) h \<and> (case buf of None \<Rightarrow> False | Some b \<Rightarrow> isl (parser f b)))"

subsection \<open>The two ways through the bootstrap\<close>

text \<open>\<^verbatim>\<open>Initial\<close> takes its first return exactly when \<^verbatim>\<open>os.Stat\<close> succeeds and
  \<^verbatim>\<open>loadBuf\<close> on the file returns no error; without persisting, the only error of
  \<^verbatim>\<open>loadBuf\<close> is the parser's.\<close>

definition mirrorLoads :: "('v, 'h) Env \<Rightarrow> ('v, 'h) Fetcher \<Rightarrow> bool" where
  "mirrorLoads env f =
    (osStat env \<noteq> None
     \<and> \<not> parseFails f (osReadFile env) (MakeHash env (bytesOf (osReadFile env))))"


text \<open>The state in which \<^verbatim>\<open>Initial\<close> reaches its fallback: after the failed
  \<^verbatim>\<open>os.Stat\<close>, or after the attempt on the local file.\<close>

definition fallbackEntry ::
  "('v, 'h) Env \<Rightarrow> Time \<Rightarrow> ('v, 'h) Fetcher \<Rightarrow> ('v, 'h) Fetcher" where
  "fallbackEntry env nowLoad f =
    (case osStat env of
       None \<Rightarrow> emit [EvStat] f
     | Some m \<Rightarrow> after (Initial_local env m nowLoad f))"

text \<open>What \<^verbatim>\<open>startPullLoop\<close> adds to the trace, by the kind of vehicle and the
  interval.\<close>

definition driverEvents :: "('v, 'h) Env \<Rightarrow> bool \<Rightarrow> Duration \<Rightarrow> ('v, 'h) event list" where
  "driverEvents env force itv =
     (if vehicleType env = File
      then EvNewWatcher # (if newWatcher env = None then [EvWatcherStart] else [])
      else if 0 <s itv then [EvGoPullLoop force] else [])"

text \<open>The events the commit step can cause.\<close>

fun commitEvent :: "('v, 'h) event \<Rightarrow> bool" where
  "commitEvent (EvParse b) = True"
| "commitEvent (EvWrite b) = True"
| "commitEvent (EvChtimes a m) = True"
| "commitEvent (EvOnUpdate v) = True"
| "commitEvent _ = False"

section \<open>Facts about the model\<close>

subsection \<open>Taking a result apart\<close>

lemma result_parts [simp]:
  "valOf (v, s, e, f) = v" "sameOf (v, s, e, f) = s" "errOf (v, s, e, f) = e" "after (v, s, e, f) = f"
  by (simp_all add: valOf_def sameOf_def errOf_def after_def)

subsection \<open>The branches of the commit step\<close>

lemma loadBuf_equal:
  "loadBuf env buf (hash f) updateFile now f =
     (Empty env, True, None,
      f\<lparr>updatedAt := now, attempt := 0,
        trace := trace f @ (if updateFile then [EvChtimes now now] else [])\<rparr>)"
  by (simp add: loadBuf_def hashEqual_def emit_def Reset_def)

lemma loadBuf_absent:
  "hash f \<noteq> h \<Longrightarrow> loadBuf env None h updateFile now f = (Empty env, True, None, f)"
  by (simp add: loadBuf_def hashEqual_def)

lemma loadBuf_parse_error:
  "hash f \<noteq> h \<Longrightarrow> parser f b = Inl err \<Longrightarrow>
   loadBuf env (Some b) h updateFile now f =
     (Empty env, False, Some err,
      f\<lparr>attempt := attempt f + 1, trace := trace f @ [EvParse b]\<rparr>)"
  by (simp add: loadBuf_def hashEqual_def emit_def AddAttempt_def)

lemma loadBuf_write_error:
  "hash f \<noteq> h \<Longrightarrow> parser f b = Inr contents \<Longrightarrow> vehicleWrite env b = Some err \<Longrightarrow>
   loadBuf env (Some b) h True now f =
     (Empty env, False, Some err,
      f\<lparr>attempt := 0, trace := trace f @ [EvParse b, EvWrite b]\<rparr>)"
  by (simp add: loadBuf_def hashEqual_def emit_def Reset_def)

lemma loadBuf_commit:
  "hash f \<noteq> h \<Longrightarrow> parser f b = Inr contents \<Longrightarrow>
   (updateFile \<Longrightarrow> vehicleWrite env b = None) \<Longrightarrow>
   loadBuf env (Some b) h updateFile now f =
     (contents, False, None,
      f\<lparr>updatedAt := now, hash := h, attempt := 0,
        trace := trace f @ EvParse b # (if updateFile then [EvWrite b] else []) @
                 (if onUpdate f then [EvOnUpdate contents] else [])\<rparr>)"
  by (simp add: loadBuf_def hashEqual_def emit_def Reset_def)

text \<open>Whenever the fingerprints differ and there are bytes, the parser runs first; an
  \<^verbatim>\<open>Update\<close> reads the source with the stored fingerprint before that.\<close>

lemma loadBuf_parses:
  "hash f \<noteq> h \<Longrightarrow>
   take 1 (newEvents f (after (loadBuf env (Some b) h updateFile now f))) = [EvParse b]"
  by (simp add: loadBuf_def hashEqual_def emit_def Reset_def AddAttempt_def Let_def newEvents_def
      split: sum.split option.split)

lemma Update_rereads:
  "vehicleRead env (hash f) = Inr (Some b, h) \<Longrightarrow> hash f \<noteq> h \<Longrightarrow>
   take 2 (newEvents f (after (Update env now f))) = [EvRead (hash f), EvParse b]"
  by (simp add: Update_def loadBuf_def hashEqual_def emit_def Reset_def AddAttempt_def Let_def
      newEvents_def split: sum.split option.split)

subsection \<open>The commit step, branch by branch\<close>

text \<open>The five ways through \<^verbatim>\<open>loadBuf\<close>, as a case rule.\<close>

lemma loadBuf_cases:
  obtains (equal) "hash f = h"
      "loadBuf env buf h updateFile now f =
         (Empty env, True, None,
          f\<lparr>updatedAt := now, attempt := 0,
            trace := trace f @ (if updateFile then [EvChtimes now now] else [])\<rparr>)"
  | (absent) "hash f \<noteq> h" "buf = None"
      "loadBuf env buf h updateFile now f = (Empty env, True, None, f)"
  | (parse_error) b err where "hash f \<noteq> h" "buf = Some b" "parser f b = Inl err"
      "loadBuf env buf h updateFile now f =
         (Empty env, False, Some err,
          f\<lparr>attempt := attempt f + 1, trace := trace f @ [EvParse b]\<rparr>)"
  | (write_error) b contents err where "hash f \<noteq> h" "buf = Some b" "parser f b = Inr contents"
      "updateFile" "vehicleWrite env b = Some err"
      "loadBuf env buf h updateFile now f =
         (Empty env, False, Some err,
          f\<lparr>attempt := 0, trace := trace f @ [EvParse b, EvWrite b]\<rparr>)"
  | (commit) b contents where "hash f \<noteq> h" "buf = Some b" "parser f b = Inr contents"
      "updateFile \<Longrightarrow> vehicleWrite env b = None"
      "loadBuf env buf h updateFile now f =
         (contents, False, None,
          f\<lparr>updatedAt := now, hash := h, attempt := 0,
            trace := trace f @ EvParse b # (if updateFile then [EvWrite b] else []) @
                     (if onUpdate f then [EvOnUpdate contents] else [])\<rparr>)"
proof (cases "hash f = h")
  case True
  with equal loadBuf_equal [of env buf f updateFile now] show thesis by simp
next
  case diff: False
  show thesis
  proof (cases buf)
    case None
    with absent diff loadBuf_absent [of f h env updateFile now] show thesis by simp
  next
    case (Some b)
    show thesis
    proof (cases "parser f b")
      case (Inl err)
      with parse_error diff Some loadBuf_parse_error [of f h b err env updateFile now]
      show thesis by simp
    next
      case (Inr contents)
      show thesis
      proof (cases "updateFile \<and> vehicleWrite env b \<noteq> None")
        case True
        then obtain err where "vehicleWrite env b = Some err" by auto
        with write_error diff Some Inr True loadBuf_write_error [of f h b contents env err now]
        show thesis by simp
      next
        case False
        then have "updateFile \<Longrightarrow> vehicleWrite env b = None" by simp
        with commit diff Some Inr loadBuf_commit [of f h b contents updateFile env now]
        show thesis by simp
      qed
    qed
  qed
qed

lemma loadBuf_value:
  "(sameOf (loadBuf env buf h updateFile now f) \<or> errOf (loadBuf env buf h updateFile now f) \<noteq> None
      \<longrightarrow> valOf (loadBuf env buf h updateFile now f) = Empty env)
   \<and> (valOf (loadBuf env buf h updateFile now f) \<noteq> Empty env \<longrightarrow>
        \<not> sameOf (loadBuf env buf h updateFile now f)
      \<and> errOf (loadBuf env buf h updateFile now f) = None
      \<and> hash (after (loadBuf env buf h updateFile now f)) = h \<and> h \<noteq> hash f
      \<and> updatedAt (after (loadBuf env buf h updateFile now f)) = now)"
  by (cases rule: loadBuf_cases [of f h env buf updateFile now]) simp_all

subsection \<open>The attempt counter after a commit step\<close>

lemma loadBuf_attempt:
  "attempt (after (loadBuf env buf h updateFile now f)) =
     (if parseFails f buf h then attempt f + 1
      else if absentBranch f buf h then attempt f else 0)"
  by (simp add: loadBuf_def hashEqual_def emit_def Reset_def AddAttempt_def Let_def
      parseFails_def absentBranch_def split: sum.split option.split)

lemma loadBuf_err_parse:
  "parseFails f buf h \<Longrightarrow> errOf (loadBuf env buf h updateFile now f) \<noteq> None"
  by (cases buf; cases "parser f (the buf)") (simp_all add: loadBuf_def parseFails_def)

lemma loadBuf_absentBranch:
  "absentBranch f buf h \<Longrightarrow> loadBuf env buf h updateFile now f = (Empty env, True, None, f)"
  by (simp add: absentBranch_def loadBuf_def)

lemma parseFails_emit [simp]: "parseFails (emit evs f) buf h = parseFails f buf h"
  by (cases buf) (simp_all add: parseFails_def emit_def)

lemma absentBranch_emit [simp]: "absentBranch (emit evs f) buf h = absentBranch f buf h"
  by (simp add: absentBranch_def emit_def)

lemma Update_attempt:
  "attempt (after (Update env now f)) =
     (case vehicleRead env (hash f) of
        Inl e \<Rightarrow> attempt f + 1
      | Inr (buf, h) \<Rightarrow>
          (if parseFails f buf h then attempt f + 1
           else if absentBranch f buf h then attempt f else 0))"
proof (cases "vehicleRead env (hash f)")
  case (Inl e)
  then show ?thesis by (simp add: Update_def AddAttempt_def emit_def)
next
  case (Inr p)
  obtain buf h where p: "p = (buf, h)" by (cases p)
  have "attempt (emit [EvRead (hash f)] f) = attempt f" by (simp add: emit_def)
  then show ?thesis using Inr p by (simp add: Update_def loadBuf_attempt)
qed

subsection \<open>What the operations add to the trace\<close>

lemma commitEvent_not_read: "list_all commitEvent evs \<Longrightarrow> filter isRead evs = []"
  by (induction evs) (auto elim: commitEvent.elims)

lemma commitEvent_not_go: "list_all commitEvent evs \<Longrightarrow> EvGoPullLoop b \<notin> set evs"
  by (induction evs) auto

lemma loadBuf_events:
  "\<exists>evs. trace (after (loadBuf env buf h updateFile now f)) = trace f @ evs
     \<and> list_all commitEvent evs"
  by (cases rule: loadBuf_cases [of f h env buf updateFile now]) simp_all

lemma loadBuf_hash_on_error:
  "errOf (loadBuf env buf h updateFile now f) \<noteq> None \<Longrightarrow>
   hash (after (loadBuf env buf h updateFile now f)) = hash f"
  by (cases rule: loadBuf_cases [of f h env buf updateFile now]) simp_all

lemma loadBuf_err_iff_parseFails:
  "errOf (loadBuf env buf h False now f) \<noteq> None \<longleftrightarrow> parseFails f buf h"
  by (cases rule: loadBuf_cases [of f h env buf False now])
    (simp_all add: parseFails_def hashEqual_def)

lemma Update_events:
  "\<exists>evs. trace (after (Update env now f)) = trace f @ EvRead (hash f) # evs
     \<and> list_all commitEvent evs"
proof (cases "vehicleRead env (hash f)")
  case (Inl e)
  then show ?thesis by (simp add: Update_def AddAttempt_def emit_def)
next
  case (Inr p)
  obtain buf h where p: "p = (buf, h)" by (cases p)
  obtain evs where
    "trace (after (loadBuf env buf h (vehicleType env \<noteq> File) now (emit [EvRead (hash f)] f))) =
       trace (emit [EvRead (hash f)] f) @ evs" "list_all commitEvent evs"
    using loadBuf_events [of env buf h "vehicleType env \<noteq> File" now "emit [EvRead (hash f)] f"]
    by blast
  then show ?thesis using Inr p by (simp add: Update_def emit_def)
qed

lemma startPullLoop_trace:
  "trace (snd (startPullLoop env force f)) = trace f @
     (if vehicleType env = File
      then EvNewWatcher # (if newWatcher env = None then [EvWatcherStart] else [])
      else if 0 <s interval f then [EvGoPullLoop force] else [])"
  by (simp add: startPullLoop_def emit_def Let_def split: option.split)

lemma Initial_local_events:
  "\<exists>evs. trace (after (Initial_local env m nowLoad f)) = trace f @ EvStat # EvReadFile # evs
     \<and> list_all commitEvent evs"
proof -
  let ?h = "MakeHash env (bytesOf (osReadFile env))"
  let ?g = "emit [EvStat, EvReadFile] f"
  obtain evs where e: "trace (after (loadBuf env (osReadFile env) ?h False nowLoad ?g)) = trace ?g @ evs"
    "list_all commitEvent evs"
    using loadBuf_events [of env "osReadFile env" ?h False nowLoad ?g] by blast
  have "after (Initial_local env m nowLoad f) =
     (after (loadBuf env (osReadFile env) ?h False nowLoad ?g))\<lparr>updatedAt := m\<rparr>"
    by (simp add: Initial_local_def Let_def after_def split: prod.split)
  with e show ?thesis by (simp add: emit_def)
qed

lemma Initial_local_err:
  "errOf (Initial_local env m nowLoad f) \<noteq> None \<longleftrightarrow>
   parseFails f (osReadFile env) (MakeHash env (bytesOf (osReadFile env)))"
proof -
  let ?h = "MakeHash env (bytesOf (osReadFile env))"
  let ?g = "emit [EvStat, EvReadFile] f"
  have "errOf (Initial_local env m nowLoad f) = errOf (loadBuf env (osReadFile env) ?h False nowLoad ?g)"
    by (simp add: Initial_local_def Let_def errOf_def split: prod.split)
  then show ?thesis
    using loadBuf_err_iff_parseFails [of env "osReadFile env" ?h nowLoad ?g] by simp
qed

lemma Initial_local_hash:
  "errOf (Initial_local env m nowLoad f) \<noteq> None \<Longrightarrow>
     hash (after (Initial_local env m nowLoad f)) = hash f"
proof -
  let ?h = "MakeHash env (bytesOf (osReadFile env))"
  let ?g = "emit [EvStat, EvReadFile] f"
  assume a: "errOf (Initial_local env m nowLoad f) \<noteq> None"
  have 1: "errOf (Initial_local env m nowLoad f) = errOf (loadBuf env (osReadFile env) ?h False nowLoad ?g)"
    by (simp add: Initial_local_def Let_def errOf_def split: prod.split)
  have 2: "after (Initial_local env m nowLoad f) =
     (after (loadBuf env (osReadFile env) ?h False nowLoad ?g))\<lparr>updatedAt := m\<rparr>"
    by (simp add: Initial_local_def Let_def after_def split: prod.split)
  show ?thesis
    using a 1 2 loadBuf_hash_on_error [of env "osReadFile env" ?h False nowLoad ?g]
    by (simp add: emit_def)
qed

subsection \<open>The interval and the waits of the poll loop\<close>

lemma loadBuf_interval: "interval (after (loadBuf env buf h updateFile now f)) = interval f"
  by (cases rule: loadBuf_cases [of f h env buf updateFile now]) simp_all

lemma Update_interval: "interval (after (Update env now f)) = interval f"
proof (cases "vehicleRead env (hash f)")
  case (Inl e)
  then show ?thesis by (simp add: Update_def AddAttempt_def emit_def)
next
  case (Inr p)
  obtain buf h where "p = (buf, h)" by (cases p)
  with Inr show ?thesis by (simp add: Update_def loadBuf_interval) (simp add: emit_def)
qed

lemma updateWithLog_after: "updateWithLog env now f = after (Update env now f)"
  by (simp add: updateWithLog_def after_def split: prod.split)

lemma updateWithLog_interval: "interval (updateWithLog env now f) = interval f"
  by (simp add: updateWithLog_after Update_interval)

lemma withBackoff_le: "withBackoff env f d \<le>s d"
  by (simp add: withBackoff_def Let_def word_sle_eq word_sless_alt)

lemma withBackoff_eq:
  "withBackoff env f d =
    (if 0 < attempt f \<and> ForAttempt env (attempt f) <s d then ForAttempt env (attempt f) else d)"
  by (simp add: withBackoff_def Let_def)

lemma clamp_le: "(if i <s d then i else d) \<le>s (i :: Duration)"
  by (simp add: word_sle_eq word_sless_alt)

lemma pullLoop_start_le: "fst (pullLoop_start env nowSince nowUpd forceUpdate f) \<le>s interval f"
proof -
  let ?d = "interval f - Since nowSince (updatedAt f)"
  let ?c = "if interval f <s ?d then interval f else ?d"
  let ?f1 = "if forceUpdate then updateWithLog env nowUpd f else f"
  have "withBackoff env ?f1 ?c \<le>s ?c" by (rule withBackoff_le)
  moreover have "?c \<le>s interval f" by (rule clamp_le)
  ultimately have "withBackoff env ?f1 ?c \<le>s interval f" by (rule signed.order_trans)
  then show ?thesis by (simp add: pullLoop_start_def Let_def)
qed

lemma pullLoop_start_interval:
  "interval (snd (pullLoop_start env nowSince nowUpd forceUpdate f)) = interval f"
  by (simp add: pullLoop_start_def Let_def updateWithLog_interval)

lemma pullLoop_tick_le: "fst (pullLoop_tick env now f) \<le>s interval f"
  using withBackoff_le [of env "updateWithLog env now f" "interval f"]
  by (simp add: pullLoop_tick_def Let_def updateWithLog_interval)

lemma pullLoop_tick_interval: "interval (snd (pullLoop_tick env now f)) = interval f"
  by (simp add: pullLoop_tick_def Let_def updateWithLog_interval)

lemma pullLoop_ticks_le:
  "w \<in> set (fst (pullLoop_ticks ticks f)) \<Longrightarrow> w \<le>s interval f"
proof (induction ticks arbitrary: f)
  case Nil
  then show ?case by simp
next
  case (Cons t ticks)
  obtain env now where t: "t = (env, now)" by (cases t)
  obtain w1 f1 where s: "pullLoop_tick env now f = (w1, f1)" by (cases "pullLoop_tick env now f")
  obtain ws f2 where r: "pullLoop_ticks ticks f1 = (ws, f2)" by (cases "pullLoop_ticks ticks f1")
  have w1: "w1 \<le>s interval f" using pullLoop_tick_le [of env now f] s by simp
  have i1: "interval f1 = interval f" using pullLoop_tick_interval [of env now f] s by simp
  from Cons.prems t s r have "w = w1 \<or> w \<in> set ws" by simp
  then show ?case
  proof
    assume "w = w1" with w1 show ?thesis by simp
  next
    assume "w \<in> set ws"
    then have "w \<in> set (fst (pullLoop_ticks ticks f1))" using r by simp
    then have "w \<le>s interval f1" by (rule Cons.IH)
    with i1 show ?thesis by simp
  qed
qed

lemma pullLoop_le:
  "w \<in> set (fst (pullLoop env nowSince nowUpd forceUpdate ticks f)) \<Longrightarrow> w \<le>s interval f"
proof -
  assume a: "w \<in> set (fst (pullLoop env nowSince nowUpd forceUpdate ticks f))"
  obtain w0 f1 where s: "pullLoop_start env nowSince nowUpd forceUpdate f = (w0, f1)"
    by (cases "pullLoop_start env nowSince nowUpd forceUpdate f")
  obtain ws f2 where r: "pullLoop_ticks ticks f1 = (ws, f2)" by (cases "pullLoop_ticks ticks f1")
  have w0: "w0 \<le>s interval f" using pullLoop_start_le [of env nowSince nowUpd forceUpdate f] s by simp
  have i1: "interval f1 = interval f"
    using pullLoop_start_interval [of env nowSince nowUpd forceUpdate f] s by simp
  from a s r have "w = w0 \<or> w \<in> set (fst (pullLoop_ticks ticks f1))" by (simp add: pullLoop_def)
  then show ?thesis using w0 i1 pullLoop_ticks_le [of w ticks f1] by auto
qed

lemma sint_word_of_int_exact:
  "- (2 ^ 63) \<le> d \<Longrightarrow> d \<le> 2 ^ 63 - 1 \<Longrightarrow> sint (word_of_int d :: Duration) = d"
  using signed_take_bit_int_eq_self [of 63 d] by (simp add: sint_sbintrunc')

lemma Since_exact:
  assumes "- (2 ^ 63) \<le> now - t" "now - t \<le> 2 ^ 63 - 1"
  shows "sint (Since now t) = now - t"
proof -
  define d where "d = now - t"
  have "Since now t = word_of_int d"
    using assms unfolding Since_def Let_def d_def [symmetric] by simp
  then show ?thesis
    using assms sint_word_of_int_exact [of d] by (simp add: d_def)
qed

lemma sint_sub_exact:
  fixes a b :: Duration
  shows "- (2 ^ 63) \<le> sint a - sint b \<Longrightarrow> sint a - sint b \<le> 2 ^ 63 - 1 \<Longrightarrow>
    sint (a - b) = sint a - sint b"
  by (simp add: sint_word_ariths signed_take_bit_int_eq_self)

lemma sint_clamp:
  fixes i d :: Duration
  shows "sint d = sint i - e \<Longrightarrow> sint (if i <s d then i else d) = min (sint i) (sint i - e)"
  by (simp add: word_sless_alt min_def)

subsection \<open>A tick of the poll loop, and one after Close\<close>

lemma Close_ctxDone: "ctxDone (snd (Close f))"
  by (simp add: Close_def Let_def emit_def)

lemma Close_hash: "hash (snd (Close f)) = hash f"
  by (simp add: Close_def Let_def emit_def)

lemma pullLoop_tick_reads:
  "filter isRead (newEvents g (snd (pullLoop_tick env now g))) = [EvRead (hash g)]"
proof -
  obtain evs where "trace (after (Update env now g)) = trace g @ EvRead (hash g) # evs"
    "list_all commitEvent evs"
    using Update_events [of env now g] by blast
  then show ?thesis using commitEvent_not_read [of evs]
    by (simp add: pullLoop_tick_def Let_def updateWithLog_after newEvents_def)
qed

lemma tick_after_Close:
  "selectReady True (snd (Close f)) TimerC \<and> selectReady True (snd (Close f)) CtxDone
   \<and> pullLoop_select env now True TimerC (snd (Close f)) =
       Some (Some (fst (pullLoop_tick env now (snd (Close f)))),
             snd (pullLoop_tick env now (snd (Close f))))
   \<and> filter isRead (newEvents (snd (Close f)) (snd (pullLoop_tick env now (snd (Close f))))) =
       [EvRead (hash f)]"
  using pullLoop_tick_reads [of "snd (Close f)" env now]
  by (simp add: selectReady_def pullLoop_select_def Close_ctxDone Close_hash split: prod.split)

subsection \<open>The bootstrap, path by path\<close>

lemma startPullLoop_driverEvents:
  "trace (snd (startPullLoop env force f)) = trace f @ driverEvents env force (interval f)"
  by (simp add: startPullLoop_trace driverEvents_def)

lemma driverEvents_no_read: "filter isRead (driverEvents env force itv) = []"
  by (simp add: driverEvents_def)


text \<open>One call of \<^verbatim>\<open>startPullLoop\<close> never sets up both a watcher and a poll loop.\<close>

lemma driverEvents_exclusive:
  "\<not> (EvNewWatcher \<in> set (driverEvents env force itv)
      \<and> EvGoPullLoop b \<in> set (driverEvents env force itv))"
  by (auto simp add: driverEvents_def)

lemma Initial_remote_eq:
  "Initial_remote env nowUpd g =
    ((if fst (startPullLoop env False (after (Update env nowUpd g))) = None
         \<and> errOf (Update env nowUpd g) = None
      then valOf (Update env nowUpd g) else Empty env),
     (if fst (startPullLoop env False (after (Update env nowUpd g))) \<noteq> None
      then fst (startPullLoop env False (after (Update env nowUpd g)))
      else errOf (Update env nowUpd g)),
     snd (startPullLoop env False (after (Update env nowUpd g))))"
  by (simp add: Initial_remote_def valOf_def errOf_def after_def split: prod.split option.split)

lemma Initial_local_interval: "interval (after (Initial_local env m nowLoad f)) = interval f"
proof -
  let ?h = "MakeHash env (bytesOf (osReadFile env))"
  let ?g = "emit [EvStat, EvReadFile] f"
  have "after (Initial_local env m nowLoad f) =
     (after (loadBuf env (osReadFile env) ?h False nowLoad ?g))\<lparr>updatedAt := m\<rparr>"
    by (simp add: Initial_local_def Let_def after_def split: prod.split)
  then show ?thesis by (simp add: loadBuf_interval) (simp add: emit_def)
qed

lemma Initial_fallback:
  assumes "osStat env = None \<or>
      parseFails f (osReadFile env) (MakeHash env (bytesOf (osReadFile env)))"
  shows "Initial env nowLoad nowSince nowUpd f =
      Initial_remote env nowUpd (fallbackEntry env nowLoad f)"
proof (cases "osStat env")
  case None
  then show ?thesis by (simp add: Initial_def fallbackEntry_def)
next
  case (Some m)
  with assms have ne: "errOf (Initial_local env m nowLoad f) \<noteq> None"
    using Initial_local_err [of env m nowLoad f] by auto
  obtain c sm e g where l: "Initial_local env m nowLoad f = (c, sm, e, g)"
    by (cases "Initial_local env m nowLoad f")
  with ne obtain x where "e = Some x" by auto
  then show ?thesis using Some l
    by (simp add: Initial_def fallbackEntry_def)
qed


lemma fallbackEntry_facts:
  assumes "osStat env = None \<or>
      parseFails f (osReadFile env) (MakeHash env (bytesOf (osReadFile env)))"
  shows "\<exists>evs. trace (fallbackEntry env nowLoad f) = trace f @ evs \<and> filter isRead evs = []
      \<and> (\<forall>b. EvGoPullLoop b \<notin> set evs)"
    and "hash (fallbackEntry env nowLoad f) = hash f"
    and "interval (fallbackEntry env nowLoad f) = interval f"
proof -
  show "\<exists>evs. trace (fallbackEntry env nowLoad f) = trace f @ evs \<and> filter isRead evs = []
      \<and> (\<forall>b. EvGoPullLoop b \<notin> set evs)"
  proof (cases "osStat env")
    case None
    then show ?thesis by (simp add: fallbackEntry_def emit_def)
  next
    case (Some m)
    obtain evs where "trace (after (Initial_local env m nowLoad f)) = trace f @ EvStat # EvReadFile # evs"
      "list_all commitEvent evs"
      using Initial_local_events [of env m nowLoad f] by blast
    then show ?thesis using Some commitEvent_not_read [of evs] commitEvent_not_go [of evs]
      by (simp add: fallbackEntry_def)
  qed
  show "hash (fallbackEntry env nowLoad f) = hash f"
  proof (cases "osStat env")
    case None
    then show ?thesis by (simp add: fallbackEntry_def emit_def)
  next
    case (Some m)
    with assms have "errOf (Initial_local env m nowLoad f) \<noteq> None"
      using Initial_local_err [of env m nowLoad f] by auto
    then show ?thesis using Some Initial_local_hash [of env m nowLoad f]
      by (simp add: fallbackEntry_def)
  qed
  show "interval (fallbackEntry env nowLoad f) = interval f"
    by (cases "osStat env") (simp_all add: fallbackEntry_def emit_def Initial_local_interval)
qed


lemma not_mirrorLoads:
  "\<not> mirrorLoads env f \<longleftrightarrow>
     osStat env = None \<or> parseFails f (osReadFile env) (MakeHash env (bytesOf (osReadFile env)))"
  by (auto simp add: mirrorLoads_def)

lemma Initial_fallback_shape:
  assumes nl: "\<not> mirrorLoads env f"
  shows "\<exists>pre evs.
      Initial env nowLoad nowSince nowUpd f =
         ((if fst (startPullLoop env False (after (Update env nowUpd (fallbackEntry env nowLoad f)))) = None
             \<and> errOf (Update env nowUpd (fallbackEntry env nowLoad f)) = None
           then valOf (Update env nowUpd (fallbackEntry env nowLoad f)) else Empty env),
          (if fst (startPullLoop env False (after (Update env nowUpd (fallbackEntry env nowLoad f)))) \<noteq> None
           then fst (startPullLoop env False (after (Update env nowUpd (fallbackEntry env nowLoad f))))
           else errOf (Update env nowUpd (fallbackEntry env nowLoad f))),
          snd (startPullLoop env False (after (Update env nowUpd (fallbackEntry env nowLoad f)))))
    \<and> newEvents f (after (Update env nowUpd (fallbackEntry env nowLoad f))) =
         pre @ EvRead (hash f) # evs
    \<and> newEvents f (snd (startPullLoop env False (after (Update env nowUpd (fallbackEntry env nowLoad f))))) =
         pre @ EvRead (hash f) # evs @ driverEvents env False (interval f)
    \<and> newEvents (after (Update env nowUpd (fallbackEntry env nowLoad f)))
         (snd (startPullLoop env False (after (Update env nowUpd (fallbackEntry env nowLoad f))))) =
         driverEvents env False (interval f)
    \<and> filter isRead pre = [] \<and> (\<forall>b. EvGoPullLoop b \<notin> set pre) \<and> list_all commitEvent evs"
proof -
  let ?g = "fallbackEntry env nowLoad f"
  let ?u = "Update env nowUpd ?g"
  let ?s = "startPullLoop env False (after ?u)"
  have fb: "osStat env = None \<or>
      parseFails f (osReadFile env) (MakeHash env (bytesOf (osReadFile env)))"
    using nl by (simp add: not_mirrorLoads)
  obtain pre where pre: "trace ?g = trace f @ pre" "filter isRead pre = []"
      "\<forall>b. EvGoPullLoop b \<notin> set pre"
    using fallbackEntry_facts(1) [OF fb, of nowLoad] by blast
  have hg: "hash ?g = hash f" using fb by (rule fallbackEntry_facts(2))
  have ig: "interval ?g = interval f" using fb by (rule fallbackEntry_facts(3))
  obtain evs where evs: "trace (after ?u) = trace ?g @ EvRead (hash ?g) # evs"
    "list_all commitEvent evs"
    using Update_events [of env nowUpd ?g] by blast
  have iu: "interval (after ?u) = interval f" using ig by (simp add: Update_interval)
  have ts: "trace (snd ?s) = trace (after ?u) @ driverEvents env False (interval f)"
    using startPullLoop_driverEvents [of env False "after ?u"] iu by simp
  have 1: "Initial env nowLoad nowSince nowUpd f =
         ((if fst ?s = None \<and> errOf ?u = None then valOf ?u else Empty env),
          (if fst ?s \<noteq> None then fst ?s else errOf ?u), snd ?s)"
    using Initial_fallback [OF fb, of nowLoad nowSince nowUpd] Initial_remote_eq [of env nowUpd ?g]
    by simp
  have nu: "newEvents f (after ?u) = pre @ EvRead (hash f) # evs"
    using pre evs hg by (simp add: newEvents_def)
  have ns: "newEvents f (snd ?s) = pre @ EvRead (hash f) # evs @ driverEvents env False (interval f)"
    using pre evs hg ts by (simp add: newEvents_def)
  have nd: "newEvents (after ?u) (snd ?s) = driverEvents env False (interval f)"
    using ts by (simp add: newEvents_def)
  show ?thesis using 1 nu ns nd pre(2,3) evs(2) by blast
qed



section \<open>The claims\<close>

subsection \<open>C1: an equal fingerprint is a no-op refresh\<close>

text \<open>
  Claim C1. Whenever the fingerprint handed to the commit step \<^verbatim>\<open>loadBuf\<close> equals the
  stored one, the call returns the zero value, \<^verbatim>\<open>wasUnchanged = true\<close> and no error;
  \<open>updatedAt\<close> becomes the current time, the attempt counter becomes zero, the stored
  fingerprint stays, and the only thing done to the outside is \<^verbatim>\<open>os.Chtimes\<close> on the
  mirror when persisting was asked for: no parser call, no \<^verbatim>\<open>vehicle.Write\<close>, no
  \<^verbatim>\<open>onUpdate\<close>. The buffer \<open>buf\<close> is arbitrary (also nil, also bytes other than the
  committed ones), so the fingerprints alone decide. The same holds when the step is
  reached through \<^verbatim>\<open>Update\<close> (the source answers the stored fingerprint; the read
  itself is the one further event) and through \<^verbatim>\<open>SideUpdate\<close> (the bytes hash to the
  stored fingerprint; persisting is always asked for).
\<close>

theorem C1_equal_fingerprint_unchanged:
  "(hash f = h \<longrightarrow>
      loadBuf env buf h updateFile now f =
        (Empty env, True, None,
         f\<lparr>updatedAt := now, attempt := 0,
           trace := trace f @ (if updateFile then [EvChtimes now now] else [])\<rparr>))
   \<and> (vehicleRead env (hash f) = Inr (buf, hash f) \<longrightarrow>
      Update env now f =
        (Empty env, True, None,
         f\<lparr>updatedAt := now, attempt := 0,
           trace := trace f @ EvRead (hash f) #
             (if vehicleType env \<noteq> File then [EvChtimes now now] else [])\<rparr>))
   \<and> (MakeHash env (bytesOf buf) = hash f \<longrightarrow>
      SideUpdate env buf now f =
        (Empty env, True, None,
         f\<lparr>updatedAt := now, attempt := 0, trace := trace f @ [EvChtimes now now]\<rparr>))"
proof (intro conjI impI)
  assume "hash f = h"
  then show "loadBuf env buf h updateFile now f =
        (Empty env, True, None,
         f\<lparr>updatedAt := now, attempt := 0,
           trace := trace f @ (if updateFile then [EvChtimes now now] else [])\<rparr>)"
    using loadBuf_equal [of env buf f updateFile now] by simp
next
  assume rd: "vehicleRead env (hash f) = Inr (buf, hash f)"
  have "hash (emit [EvRead (hash f)] f) = hash f"
    by (simp add: emit_def)
  then have "loadBuf env buf (hash f) (vehicleType env \<noteq> File) now (emit [EvRead (hash f)] f) =
      (Empty env, True, None,
       (emit [EvRead (hash f)] f)\<lparr>updatedAt := now, attempt := 0,
          trace := trace (emit [EvRead (hash f)] f) @
            (if vehicleType env \<noteq> File then [EvChtimes now now] else [])\<rparr>)"
    using loadBuf_equal [of env buf "emit [EvRead (hash f)] f" "vehicleType env \<noteq> File" now]
    by simp
  with rd show "Update env now f =
        (Empty env, True, None,
         f\<lparr>updatedAt := now, attempt := 0,
           trace := trace f @ EvRead (hash f) #
             (if vehicleType env \<noteq> File then [EvChtimes now now] else [])\<rparr>)"
    by (simp add: Update_def emit_def)
next
  assume "MakeHash env (bytesOf buf) = hash f"
  then show "SideUpdate env buf now f =
        (Empty env, True, None,
         f\<lparr>updatedAt := now, attempt := 0, trace := trace f @ [EvChtimes now now]\<rparr>)"
    using loadBuf_equal [of env buf f True now] by (simp add: SideUpdate_def)
qed

text \<open>At the concrete fetcher, with stored fingerprint 2 and two failed attempts behind
  it: the buffer 3, 4 is not what the source serves (1, 2) but has the same fingerprint,
  and is taken as unchanged.\<close>

theorem C1_equal_fingerprint_unchanged_witness:
  "hash (demoFetcher\<lparr>hash := 2, attempt := 2\<rparr>) = 2
   \<and> loadBuf demoEnv (Some [3, 4]) 2 True 50 (demoFetcher\<lparr>hash := 2, attempt := 2\<rparr>) =
       (0, True, None,
        demoFetcher\<lparr>hash := 2, updatedAt := 50, attempt := 0, trace := [EvChtimes 50 50]\<rparr>)
   \<and> vehicleRead demoEnv 2 = Inr (Some [1, 2], 2)
   \<and> Update demoEnv 50 (demoFetcher\<lparr>hash := 2, attempt := 2\<rparr>) =
       (0, True, None,
        demoFetcher\<lparr>hash := 2, updatedAt := 50, attempt := 0,
          trace := [EvRead 2, EvChtimes 50 50]\<rparr>)
   \<and> MakeHash demoEnv (bytesOf (Some [3, 4])) = 2
   \<and> SideUpdate demoEnv (Some [3, 4]) 50 (demoFetcher\<lparr>hash := 2, attempt := 2\<rparr>) =
       (0, True, None,
        demoFetcher\<lparr>hash := 2, updatedAt := 50, attempt := 0, trace := [EvChtimes 50 50]\<rparr>)"
  using C1_equal_fingerprint_unchanged
    [where f = "demoFetcher\<lparr>hash := 2, attempt := 2\<rparr>" and h = 2 and env = demoEnv
       and buf = "Some [3, 4]" and updateFile = True and now = 50]
    C1_equal_fingerprint_unchanged
    [where f = "demoFetcher\<lparr>hash := 2, attempt := 2\<rparr>" and h = 2 and env = demoEnv
       and buf = "Some [1, 2]" and updateFile = True and now = 50]
  by (simp add: demoEnv_def demoFetcher_def bytesOf_def)

subsection \<open>C2: a failed mirror write commits nothing\<close>

text \<open>
  Claim C2. When the fingerprints differ, the parser accepts the bytes and
  \<^verbatim>\<open>vehicle.Write\<close> fails under the persist flag, the commit step returns that error
  (with the zero value and \<^verbatim>\<open>wasUnchanged = false\<close>); the stored fingerprint and
  \<open>updatedAt\<close> are as before and the events are the parser call and the failed write
  only, so \<^verbatim>\<open>onUpdate\<close> was not invoked. The same through \<^verbatim>\<open>Update\<close> (a source
  that is not a File, so that persisting is asked for) and through \<^verbatim>\<open>SideUpdate\<close>.
  Since the fingerprint did not move, the next \<^verbatim>\<open>Update\<close> that is served the same
  content reads the source with the old fingerprint and runs the parser on the same
  bytes again.
\<close>

theorem C2_write_failure_commits_nothing:
  assumes diff: "hash f \<noteq> h" and ok: "parser f b = Inr contents"
    and wr: "vehicleWrite env b = Some err"
  shows
  "loadBuf env (Some b) h True now f =
      (Empty env, False, Some err, f\<lparr>attempt := 0, trace := trace f @ [EvParse b, EvWrite b]\<rparr>)
   \<and> (vehicleType env \<noteq> File \<and> vehicleRead env (hash f) = Inr (Some b, h) \<longrightarrow>
        Update env now f =
          (Empty env, False, Some err,
           f\<lparr>attempt := 0, trace := trace f @ [EvRead (hash f), EvParse b, EvWrite b]\<rparr>))
   \<and> (MakeHash env b = h \<longrightarrow>
        SideUpdate env (Some b) now f =
          (Empty env, False, Some err,
           f\<lparr>attempt := 0, trace := trace f @ [EvParse b, EvWrite b]\<rparr>))
   \<and> (vehicleRead env' (hash f) = Inr (Some b, h) \<longrightarrow>
        take 2 (newEvents (after (loadBuf env (Some b) h True now f))
                  (after (Update env' now' (after (loadBuf env (Some b) h True now f))))) =
          [EvRead (hash f), EvParse b])"
proof -
  let ?f' = "f\<lparr>attempt := 0, trace := trace f @ [EvParse b, EvWrite b]\<rparr>"
  have 1: "loadBuf env (Some b) h True now f = (Empty env, False, Some err, ?f')"
    using diff ok wr by (rule loadBuf_write_error)
  have 2: "Update env now f =
          (Empty env, False, Some err,
           f\<lparr>attempt := 0, trace := trace f @ [EvRead (hash f), EvParse b, EvWrite b]\<rparr>)"
    if "vehicleType env \<noteq> File" "vehicleRead env (hash f) = Inr (Some b, h)"
    using that loadBuf_write_error [of "emit [EvRead (hash f)] f" h b contents env err now]
      diff ok wr
    by (simp add: Update_def emit_def)
  have 3: "SideUpdate env (Some b) now f = (Empty env, False, Some err, ?f')"
    if "MakeHash env b = h"
    using that 1 by (simp add: SideUpdate_def bytesOf_def)
  have 4: "take 2 (newEvents ?f' (after (Update env' now' ?f'))) = [EvRead (hash f), EvParse b]"
    if "vehicleRead env' (hash f) = Inr (Some b, h)"
    using that diff Update_rereads [of env' ?f' b h now'] by simp
  show ?thesis using 1 2 3 4 by simp
qed

text \<open>At the concrete fetcher, with a mirror that cannot be written.\<close>

theorem C2_write_failure_commits_nothing_witness:
  "hash demoFetcher \<noteq> 2 \<and> parser demoFetcher [1, 2] = Inr 42
   \<and> vehicleWrite (demoEnv\<lparr>vehicleWrite := (\<lambda>b. Some ''disk full'')\<rparr>) [1, 2] = Some ''disk full''
   \<and> loadBuf (demoEnv\<lparr>vehicleWrite := (\<lambda>b. Some ''disk full'')\<rparr>) (Some [1, 2]) 2 True 50
        demoFetcher =
       (0, False, Some ''disk full'', demoFetcher\<lparr>trace := [EvParse [1, 2], EvWrite [1, 2]]\<rparr>)
   \<and> Update (demoEnv\<lparr>vehicleWrite := (\<lambda>b. Some ''disk full'')\<rparr>) 50 demoFetcher =
       (0, False, Some ''disk full'',
        demoFetcher\<lparr>trace := [EvRead 0, EvParse [1, 2], EvWrite [1, 2]]\<rparr>)
   \<and> SideUpdate (demoEnv\<lparr>vehicleWrite := (\<lambda>b. Some ''disk full'')\<rparr>) (Some [1, 2]) 50
        demoFetcher =
       (0, False, Some ''disk full'', demoFetcher\<lparr>trace := [EvParse [1, 2], EvWrite [1, 2]]\<rparr>)
   \<and> take 2 (newEvents (demoFetcher\<lparr>trace := [EvParse [1, 2], EvWrite [1, 2]]\<rparr>)
        (after (Update demoEnv 60 (demoFetcher\<lparr>trace := [EvParse [1, 2], EvWrite [1, 2]]\<rparr>)))) =
       [EvRead 0, EvParse [1, 2]]"
  using C2_write_failure_commits_nothing
    [where f = demoFetcher and h = 2 and b = "[1, 2]" and contents = 42
       and env = "demoEnv\<lparr>vehicleWrite := (\<lambda>b. Some ''disk full'')\<rparr>"
       and err = "''disk full''" and now = 50 and env' = demoEnv and now' = 60]
  by (auto simp add: demoEnv_def demoFetcher_def)

subsection \<open>C3: a failed read and a failed parse count as attempts and change nothing else\<close>

text \<open>
  Claim C3. When \<^verbatim>\<open>vehicle.Read\<close> returns an error, \<^verbatim>\<open>Update\<close> returns that error,
  the attempt counter is one higher, and nothing else of the fetcher has changed:
  fingerprint and \<open>updatedAt\<close> are as before, and the read is the only event. When the
  commit step runs the parser (the fingerprints differ and there are bytes) and the
  parser returns an error, the step returns that error, the counter is one higher, and
  nothing else has changed; the parser call is the only event. The last part is the
  same step reached through \<^verbatim>\<open>Update\<close>.
\<close>

theorem C3_failed_read_or_parse:
  "(vehicleRead env (hash f) = Inl err \<longrightarrow>
      Update env now f =
        (Empty env, False, Some err,
         f\<lparr>attempt := attempt f + 1, trace := trace f @ [EvRead (hash f)]\<rparr>))
   \<and> (hash f \<noteq> h \<and> parser f b = Inl err \<longrightarrow>
      loadBuf env (Some b) h updateFile now f =
        (Empty env, False, Some err,
         f\<lparr>attempt := attempt f + 1, trace := trace f @ [EvParse b]\<rparr>))
   \<and> (vehicleRead env (hash f) = Inr (Some b, h) \<and> hash f \<noteq> h \<and> parser f b = Inl err \<longrightarrow>
      Update env now f =
        (Empty env, False, Some err,
         f\<lparr>attempt := attempt f + 1, trace := trace f @ [EvRead (hash f), EvParse b]\<rparr>))"
proof (intro conjI impI)
  assume "vehicleRead env (hash f) = Inl err"
  then show "Update env now f =
        (Empty env, False, Some err,
         f\<lparr>attempt := attempt f + 1, trace := trace f @ [EvRead (hash f)]\<rparr>)"
    by (simp add: Update_def emit_def AddAttempt_def)
next
  assume "hash f \<noteq> h \<and> parser f b = Inl err"
  then show "loadBuf env (Some b) h updateFile now f =
        (Empty env, False, Some err,
         f\<lparr>attempt := attempt f + 1, trace := trace f @ [EvParse b]\<rparr>)"
    by (simp add: loadBuf_parse_error)
next
  assume a: "vehicleRead env (hash f) = Inr (Some b, h) \<and> hash f \<noteq> h \<and> parser f b = Inl err"
  then have "loadBuf env (Some b) h (vehicleType env \<noteq> File) now (emit [EvRead (hash f)] f) =
      (Empty env, False, Some err,
       (emit [EvRead (hash f)] f)\<lparr>attempt := attempt (emit [EvRead (hash f)] f) + 1,
          trace := trace (emit [EvRead (hash f)] f) @ [EvParse b]\<rparr>)"
    using loadBuf_parse_error [of "emit [EvRead (hash f)] f" h b err env "vehicleType env \<noteq> File" now]
    by (simp add: emit_def)
  with a show "Update env now f =
        (Empty env, False, Some err,
         f\<lparr>attempt := attempt f + 1, trace := trace f @ [EvRead (hash f), EvParse b]\<rparr>)"
    by (simp add: Update_def emit_def)
qed

text \<open>At the concrete fetcher: a source that is down, an empty buffer pushed in (the
  parser refuses it), and a source that serves the empty buffer.\<close>

theorem C3_failed_read_or_parse_witness:
  "vehicleRead (demoEnv\<lparr>vehicleRead := (\<lambda>h. Inl ''timeout'')\<rparr>) (hash demoFetcher) = Inl ''timeout''
   \<and> Update (demoEnv\<lparr>vehicleRead := (\<lambda>h. Inl ''timeout'')\<rparr>) 50 demoFetcher =
       (0, False, Some ''timeout'', demoFetcher\<lparr>attempt := 1, trace := [EvRead 0]\<rparr>)
   \<and> hash demoFetcher \<noteq> 7 \<and> parser demoFetcher [] = Inl ''empty''
   \<and> loadBuf demoEnv (Some []) 7 True 50 demoFetcher =
       (0, False, Some ''empty'', demoFetcher\<lparr>attempt := 1, trace := [EvParse []]\<rparr>)
   \<and> vehicleRead (demoEnv\<lparr>vehicleRead := (\<lambda>h. Inr (Some [], 7))\<rparr>) (hash demoFetcher) =
       Inr (Some [], 7)
   \<and> Update (demoEnv\<lparr>vehicleRead := (\<lambda>h. Inr (Some [], 7))\<rparr>) 50 demoFetcher =
       (0, False, Some ''empty'', demoFetcher\<lparr>attempt := 1, trace := [EvRead 0, EvParse []]\<rparr>)"
  using C3_failed_read_or_parse
    [where env = "demoEnv\<lparr>vehicleRead := (\<lambda>h. Inl ''timeout'')\<rparr>" and f = demoFetcher
       and err = "''timeout''" and now = 50 and h = 7 and b = "[]"]
    C3_failed_read_or_parse
    [where env = demoEnv and f = demoFetcher and err = "''empty''" and now = 50 and h = 7
       and b = "[]" and updateFile = True]
    C3_failed_read_or_parse
    [where env = "demoEnv\<lparr>vehicleRead := (\<lambda>h. Inr (Some [], 7))\<rparr>" and f = demoFetcher
       and err = "''empty''" and now = 50 and h = 7 and b = "[]"]
  by (simp add: demoEnv_def demoFetcher_def)

subsection \<open>C4: when the attempt counter is zero\<close>

text \<open>
  Claim C4 says that every pipeline execution that returns without error resets the
  attempt counter to zero, and names the branch for an absent buffer as one of them.
  That branch returns before anything is touched. Here a failed read has left the
  counter at 1 and the stored fingerprint is 2; a commit step that is handed no bytes
  and the fingerprint 0 reports unchanged without error, and the counter is still 1.
\<close>

theorem C4_absent_buffer_counterexample:
  "attempt (after (Update (demoEnv\<lparr>vehicleRead := (\<lambda>h. Inl ''timeout'')\<rparr>) 50
        (demoFetcher\<lparr>hash := 2\<rparr>))) = 1
   \<and> loadBuf demoEnv None 0 True 60
        (after (Update (demoEnv\<lparr>vehicleRead := (\<lambda>h. Inl ''timeout'')\<rparr>) 50
           (demoFetcher\<lparr>hash := 2\<rparr>))) =
       (0, True, None, demoFetcher\<lparr>hash := 2, attempt := 1, trace := [EvRead 2]\<rparr>)"
  by (simp add: Update_def loadBuf_def hashEqual_def emit_def AddAttempt_def demoEnv_def
      demoFetcher_def)

text \<open>
  Claim C4, amended. For the commit step, for \<^verbatim>\<open>Update\<close> and for \<^verbatim>\<open>SideUpdate\<close>:
  the absent-buffer branch (the fingerprints differ and the buffer is nil) reports
  unchanged without error and leaves the whole fetcher, the counter included, as it was;
  every other execution that returns without error leaves the counter at zero; a failed
  parse, and in \<^verbatim>\<open>Update\<close> a failed read, returns an error and leaves the counter one
  higher; and outside these two failures and the absent-buffer branch the counter is
  zero afterwards (also after a failed mirror write). So after an execution the counter
  is nonzero only if a read or a parse has just failed, or if it was nonzero before an
  absent-buffer branch.
\<close>

theorem C4_attempt_counter:
  "((absentBranch f buf h \<longrightarrow> loadBuf env buf h updateFile now f = (Empty env, True, None, f))
    \<and> (errOf (loadBuf env buf h updateFile now f) = None \<and> \<not> absentBranch f buf h \<longrightarrow>
          attempt (after (loadBuf env buf h updateFile now f)) = 0)
    \<and> (parseFails f buf h \<longrightarrow>
          errOf (loadBuf env buf h updateFile now f) \<noteq> None
        \<and> attempt (after (loadBuf env buf h updateFile now f)) = attempt f + 1)
    \<and> (\<not> parseFails f buf h \<and> \<not> absentBranch f buf h \<longrightarrow>
          attempt (after (loadBuf env buf h updateFile now f)) = 0))
   \<and> (case vehicleRead env (hash f) of
         Inl e \<Rightarrow>
           errOf (Update env now f) = Some e \<and> attempt (after (Update env now f)) = attempt f + 1
       | Inr (rbuf, rh) \<Rightarrow>
           (absentBranch f rbuf rh \<longrightarrow>
              Update env now f = (Empty env, True, None, emit [EvRead (hash f)] f))
         \<and> (errOf (Update env now f) = None \<and> \<not> absentBranch f rbuf rh \<longrightarrow>
              attempt (after (Update env now f)) = 0)
         \<and> (parseFails f rbuf rh \<longrightarrow>
              errOf (Update env now f) \<noteq> None
            \<and> attempt (after (Update env now f)) = attempt f + 1)
         \<and> (\<not> parseFails f rbuf rh \<and> \<not> absentBranch f rbuf rh \<longrightarrow>
              attempt (after (Update env now f)) = 0))
   \<and> ((absentBranch f sbuf (MakeHash env (bytesOf sbuf)) \<longrightarrow>
          SideUpdate env sbuf now f = (Empty env, True, None, f))
    \<and> (errOf (SideUpdate env sbuf now f) = None
          \<and> \<not> absentBranch f sbuf (MakeHash env (bytesOf sbuf)) \<longrightarrow>
          attempt (after (SideUpdate env sbuf now f)) = 0)
    \<and> (parseFails f sbuf (MakeHash env (bytesOf sbuf)) \<longrightarrow>
          errOf (SideUpdate env sbuf now f) \<noteq> None
        \<and> attempt (after (SideUpdate env sbuf now f)) = attempt f + 1)
    \<and> (\<not> parseFails f sbuf (MakeHash env (bytesOf sbuf))
          \<and> \<not> absentBranch f sbuf (MakeHash env (bytesOf sbuf)) \<longrightarrow>
          attempt (after (SideUpdate env sbuf now f)) = 0))"
proof -
  have lb: "(absentBranch g b k \<longrightarrow> loadBuf env b k u now g = (Empty env, True, None, g))
    \<and> (errOf (loadBuf env b k u now g) = None \<and> \<not> absentBranch g b k \<longrightarrow>
          attempt (after (loadBuf env b k u now g)) = 0)
    \<and> (parseFails g b k \<longrightarrow>
          errOf (loadBuf env b k u now g) \<noteq> None
        \<and> attempt (after (loadBuf env b k u now g)) = attempt g + 1)
    \<and> (\<not> parseFails g b k \<and> \<not> absentBranch g b k \<longrightarrow>
          attempt (after (loadBuf env b k u now g)) = 0)"
    for g :: "('a, 'b) Fetcher" and b k u
    using loadBuf_err_parse [of g b k env u now] loadBuf_absentBranch [of g b k env u now]
    by (auto simp add: loadBuf_attempt)
  have upd: "case vehicleRead env (hash f) of
         Inl e \<Rightarrow>
           errOf (Update env now f) = Some e \<and> attempt (after (Update env now f)) = attempt f + 1
       | Inr (rbuf, rh) \<Rightarrow>
           (absentBranch f rbuf rh \<longrightarrow>
              Update env now f = (Empty env, True, None, emit [EvRead (hash f)] f))
         \<and> (errOf (Update env now f) = None \<and> \<not> absentBranch f rbuf rh \<longrightarrow>
              attempt (after (Update env now f)) = 0)
         \<and> (parseFails f rbuf rh \<longrightarrow>
              errOf (Update env now f) \<noteq> None
            \<and> attempt (after (Update env now f)) = attempt f + 1)
         \<and> (\<not> parseFails f rbuf rh \<and> \<not> absentBranch f rbuf rh \<longrightarrow>
              attempt (after (Update env now f)) = 0)"
  proof (cases "vehicleRead env (hash f)")
    case (Inl e)
    then show ?thesis by (simp add: Update_def AddAttempt_def emit_def)
  next
    case (Inr p)
    obtain rbuf rh where p: "p = (rbuf, rh)" by (cases p)
    have u: "Update env now f =
        loadBuf env rbuf rh (vehicleType env \<noteq> File) now (emit [EvRead (hash f)] f)"
      using Inr p by (simp add: Update_def)
    have e: "attempt (emit [EvRead (hash f)] f) = attempt f" by (simp add: emit_def)
    show ?thesis
      using lb [of "emit [EvRead (hash f)] f" rbuf rh "vehicleType env \<noteq> File"] Inr p u e
      by simp
  qed
  show ?thesis
    using lb [of f buf h updateFile] upd lb [of f sbuf "MakeHash env (bytesOf sbuf)" True]
    unfolding SideUpdate_def by blast
qed

text \<open>At the concrete fetcher with stored fingerprint 2 and the counter at 1: the
  absent-buffer branch of the commit step (counter still 1), a source that answers no
  bytes under the fingerprint 5 (counter still 1), an empty buffer pushed in (the parser
  refuses it: counter 2), and the commit step on the bytes 1, 2, 3 (counter 0).\<close>

theorem C4_attempt_counter_witness:
  "absentBranch (demoFetcher\<lparr>hash := 2, attempt := 1\<rparr>) None 0
   \<and> loadBuf demoEnv None 0 True 60 (demoFetcher\<lparr>hash := 2, attempt := 1\<rparr>) =
       (0, True, None, demoFetcher\<lparr>hash := 2, attempt := 1\<rparr>)
   \<and> Update (demoEnv\<lparr>vehicleRead := (\<lambda>h. Inr (None, 5))\<rparr>) 60
        (demoFetcher\<lparr>hash := 2, attempt := 1\<rparr>) =
       (0, True, None, demoFetcher\<lparr>hash := 2, attempt := 1, trace := [EvRead 2]\<rparr>)
   \<and> parseFails (demoFetcher\<lparr>hash := 2, attempt := 1\<rparr>) (Some []) 0
   \<and> errOf (SideUpdate demoEnv (Some []) 60 (demoFetcher\<lparr>hash := 2, attempt := 1\<rparr>)) \<noteq> None
   \<and> attempt (after (SideUpdate demoEnv (Some []) 60 (demoFetcher\<lparr>hash := 2, attempt := 1\<rparr>))) = 2
   \<and> \<not> parseFails (demoFetcher\<lparr>hash := 2, attempt := 1\<rparr>) (Some [1, 2, 3]) 3
   \<and> \<not> absentBranch (demoFetcher\<lparr>hash := 2, attempt := 1\<rparr>) (Some [1, 2, 3]) 3
   \<and> attempt (after (loadBuf demoEnv (Some [1, 2, 3]) 3 True 60
        (demoFetcher\<lparr>hash := 2, attempt := 1\<rparr>))) = 0"
  using C4_attempt_counter
    [where f = "demoFetcher\<lparr>hash := 2, attempt := 1\<rparr>" and buf = None and h = 0
       and env = "demoEnv\<lparr>vehicleRead := (\<lambda>h. Inr (None, 5))\<rparr>" and updateFile = True
       and now = 60 and sbuf = "Some []"]
    C4_attempt_counter
    [where f = "demoFetcher\<lparr>hash := 2, attempt := 1\<rparr>" and buf = "Some [1, 2, 3]" and h = 3
       and env = demoEnv and updateFile = True and now = 60 and sbuf = "Some []"]
  by (simp add: demoEnv_def demoFetcher_def absentBranch_def parseFails_def hashEqual_def
      bytesOf_def emit_def loadBuf_absent)

subsection \<open>C5: the fallback of the bootstrap\<close>

text \<open>
  Claim C5. When the local file is absent (\<^verbatim>\<open>os.Stat\<close> fails), or it is there and the
  parser refuses its content (which the commit step only asks when the file's fingerprint
  is not the stored one), \<^verbatim>\<open>Initial\<close> runs one \<^verbatim>\<open>Update\<close> and then
  \<^verbatim>\<open>startPullLoop(false)\<close> on the state the update left, whatever the update
  returned. It returns the driver's start-up error if there is one, else the update's
  error if there is one, else the update's value. It has read the source exactly once;
  its events are those up to the end of the update followed by those of the driver's
  start-up, and these are the watcher's for a File vehicle, the unforced poll loop for
  another vehicle with a positive interval, and none otherwise.
\<close>

theorem C5_fallback_update_then_driver:
  assumes nl: "\<not> mirrorLoads env f"
  shows
  "(let u = Update env nowUpd (fallbackEntry env nowLoad f);
        s = startPullLoop env False (after u)
    in Initial env nowLoad nowSince nowUpd f =
         ((if fst s = None \<and> errOf u = None then valOf u else Empty env),
          (if fst s \<noteq> None then fst s else errOf u),
          snd s)
       \<and> filter isRead (newEvents f (snd s)) = [EvRead (hash f)]
       \<and> newEvents f (snd s) = newEvents f (after u) @ newEvents (after u) (snd s)
       \<and> newEvents (after u) (snd s) =
           (if vehicleType env = File
            then EvNewWatcher # (if newWatcher env = None then [EvWatcherStart] else [])
            else if 0 <s interval f then [EvGoPullLoop False] else []))"
proof -
  let ?u = "Update env nowUpd (fallbackEntry env nowLoad f)"
  let ?s = "startPullLoop env False (after ?u)"
  obtain pre evs where
    1: "Initial env nowLoad nowSince nowUpd f =
         ((if fst ?s = None \<and> errOf ?u = None then valOf ?u else Empty env),
          (if fst ?s \<noteq> None then fst ?s else errOf ?u), snd ?s)"
    and nu: "newEvents f (after ?u) = pre @ EvRead (hash f) # evs"
    and ns: "newEvents f (snd ?s) = pre @ EvRead (hash f) # evs @ driverEvents env False (interval f)"
    and nd: "newEvents (after ?u) (snd ?s) = driverEvents env False (interval f)"
    and p: "filter isRead pre = []" and e: "list_all commitEvent evs"
    using Initial_fallback_shape [OF nl, of nowLoad nowSince nowUpd] by blast
  have 2: "filter isRead (newEvents f (snd ?s)) = [EvRead (hash f)]"
    using ns p commitEvent_not_read [OF e] by (simp add: driverEvents_no_read)
  have 3: "newEvents f (snd ?s) = newEvents f (after ?u) @ newEvents (after ?u) (snd ?s)"
    using ns nu nd by simp
  have 4: "newEvents (after ?u) (snd ?s) =
           (if vehicleType env = File
            then EvNewWatcher # (if newWatcher env = None then [EvWatcherStart] else [])
            else if 0 <s interval f then [EvGoPullLoop False] else [])"
    using nd by (simp add: driverEvents_def)
  show ?thesis unfolding Let_def using 1 2 3 4 by blast
qed

text \<open>At the concrete fetcher, with no local file and a source that is down: the error of
  the update comes back, and the poll loop has been started, unforced, after the read.\<close>

theorem C5_fallback_update_then_driver_witness:
  "\<not> mirrorLoads (demoEnv\<lparr>osStat := None, vehicleRead := (\<lambda>h. Inl ''timeout'')\<rparr>) demoFetcher
   \<and> Initial (demoEnv\<lparr>osStat := None, vehicleRead := (\<lambda>h. Inl ''timeout'')\<rparr>) 5 6 7 demoFetcher =
       (0, Some ''timeout'',
        demoFetcher\<lparr>attempt := 1, trace := [EvStat, EvRead 0, EvGoPullLoop False]\<rparr>)
   \<and> filter isRead (newEvents demoFetcher
         (demoFetcher\<lparr>attempt := 1, trace := [EvStat, EvRead 0, EvGoPullLoop False]\<rparr>)) =
       [EvRead (hash demoFetcher)]
   \<and> newEvents (demoFetcher\<lparr>attempt := 1, trace := [EvStat, EvRead 0]\<rparr>)
         (demoFetcher\<lparr>attempt := 1, trace := [EvStat, EvRead 0, EvGoPullLoop False]\<rparr>) =
       [EvGoPullLoop False]"
proof -
  let ?E = "demoEnv\<lparr>osStat := None, vehicleRead := (\<lambda>h. Inl ''timeout'')\<rparr>"
  have nl: "\<not> mirrorLoads ?E demoFetcher"
    by (simp add: mirrorLoads_def demoEnv_def)
  have u: "Update ?E 7 (fallbackEntry ?E 5 demoFetcher) =
      (0, False, Some ''timeout'', demoFetcher\<lparr>attempt := 1, trace := [EvStat, EvRead 0]\<rparr>)"
    by (simp add: Update_def fallbackEntry_def emit_def AddAttempt_def demoEnv_def demoFetcher_def)
  have s: "startPullLoop ?E False (demoFetcher\<lparr>attempt := 1, trace := [EvStat, EvRead 0]\<rparr>) =
      (None, demoFetcher\<lparr>attempt := 1, trace := [EvStat, EvRead 0, EvGoPullLoop False]\<rparr>)"
    by (simp add: startPullLoop_def emit_def demoEnv_def demoFetcher_def word_sless_alt)
  show ?thesis
    using C5_fallback_update_then_driver [OF nl, of 7 5 6] nl u s
    by (simp add: Let_def newEvents_def demoEnv_def demoFetcher_def word_sless_alt)
qed


subsection \<open>C6: when the bootstrap forces a refresh\<close>






subsection \<open>C7: the waits of the poll loop\<close>

text \<open>
  Claim C7. Every wait the poll loop arms its timer with is at most \<open>interval\<close>, as
  signed 64-bit durations: the initial one, the one after each tick, and so all waits of a
  run of the loop over any number of ticks. The initial wait is \<open>interval\<close> minus
  \<^verbatim>\<open>time.Since(updatedAt)\<close> (Go's \<^verbatim>\<open>int64\<close> subtraction), replaced by \<open>interval\<close>
  when it is larger; the wait after a tick starts from \<open>interval\<close>. In both places,
  with the attempt counter (as it is after the update that has just run) nonzero, the
  backoff delay for that attempt is taken exactly when it is smaller, and otherwise the
  delay stays. \<^verbatim>\<open>ForAttempt\<close> is arbitrary here. Where the subtraction does not
  overflow and the counter is zero, the initial wait is the smaller of \<open>interval\<close> and
  \<open>interval\<close> minus the elapsed time, as integers.
\<close>

theorem C7_waits_at_most_interval:
  "fst (pullLoop_start env nowSince nowUpd forceUpdate f) \<le>s interval f
   \<and> fst (pullLoop_tick env now f) \<le>s interval f
   \<and> (\<forall>w \<in> set (fst (pullLoop env nowSince nowUpd forceUpdate ticks f)). w \<le>s interval f)
   \<and> fst (pullLoop_start env nowSince nowUpd forceUpdate f) =
       (let d = interval f - Since nowSince (updatedAt f);
            c = (if interval f <s d then interval f else d);
            f1 = snd (pullLoop_start env nowSince nowUpd forceUpdate f)
        in if 0 < attempt f1 \<and> ForAttempt env (attempt f1) <s c
           then ForAttempt env (attempt f1) else c)
   \<and> fst (pullLoop_tick env now f) =
       (let f1 = snd (pullLoop_tick env now f)
        in if 0 < attempt f1 \<and> ForAttempt env (attempt f1) <s interval f
           then ForAttempt env (attempt f1) else interval f)
   \<and> (attempt f = 0
        \<and> - (2 ^ 63) \<le> nowSince - updatedAt f \<and> nowSince - updatedAt f \<le> 2 ^ 63 - 1
        \<and> - (2 ^ 63) \<le> sint (interval f) - (nowSince - updatedAt f)
        \<and> sint (interval f) - (nowSince - updatedAt f) \<le> 2 ^ 63 - 1 \<longrightarrow>
        sint (fst (pullLoop_start env nowSince nowUpd False f)) =
          min (sint (interval f)) (sint (interval f) - (nowSince - updatedAt f)))"
proof (intro conjI ballI impI)
  show "fst (pullLoop_start env nowSince nowUpd forceUpdate f) \<le>s interval f"
    by (rule pullLoop_start_le)
  show "fst (pullLoop_tick env now f) \<le>s interval f"
    by (rule pullLoop_tick_le)
  show "w \<le>s interval f"
    if "w \<in> set (fst (pullLoop env nowSince nowUpd forceUpdate ticks f))" for w
    using that by (rule pullLoop_le)
  show "fst (pullLoop_start env nowSince nowUpd forceUpdate f) =
       (let d = interval f - Since nowSince (updatedAt f);
            c = (if interval f <s d then interval f else d);
            f1 = snd (pullLoop_start env nowSince nowUpd forceUpdate f)
        in if 0 < attempt f1 \<and> ForAttempt env (attempt f1) <s c
           then ForAttempt env (attempt f1) else c)"
    by (simp add: pullLoop_start_def Let_def withBackoff_eq)
  show "fst (pullLoop_tick env now f) =
       (let f1 = snd (pullLoop_tick env now f)
        in if 0 < attempt f1 \<and> ForAttempt env (attempt f1) <s interval f
           then ForAttempt env (attempt f1) else interval f)"
    by (simp add: pullLoop_tick_def Let_def withBackoff_eq updateWithLog_interval)
  assume a: "attempt f = 0
        \<and> - (2 ^ 63) \<le> nowSince - updatedAt f \<and> nowSince - updatedAt f \<le> 2 ^ 63 - 1
        \<and> - (2 ^ 63) \<le> sint (interval f) - (nowSince - updatedAt f)
        \<and> sint (interval f) - (nowSince - updatedAt f) \<le> 2 ^ 63 - 1"
  let ?d = "interval f - Since nowSince (updatedAt f)"
  have s: "sint (Since nowSince (updatedAt f)) = nowSince - updatedAt f"
    using a by (simp add: Since_exact)
  have d: "sint ?d = sint (interval f) - (nowSince - updatedAt f)"
    using a s sint_sub_exact [of "interval f" "Since nowSince (updatedAt f)"] by simp
  have "fst (pullLoop_start env nowSince nowUpd False f) =
      (if interval f <s ?d then interval f else ?d)"
    using a by (simp add: pullLoop_start_def Let_def withBackoff_def)
  then show "sint (fst (pullLoop_start env nowSince nowUpd False f)) =
          min (sint (interval f)) (sint (interval f) - (nowSince - updatedAt f))"
    using sint_clamp [OF d] by simp
qed

text \<open>At the concrete fetcher (interval 100, backoff delay 10): a loop that is forced
  to refresh against a source that is down waits 10, and 100 after each of two good
  ticks; without failures, 30 after the last update, the first wait is 70.\<close>

theorem C7_waits_at_most_interval_witness:
  "fst (pullLoop (demoEnv\<lparr>vehicleRead := (\<lambda>h. Inl ''timeout'')\<rparr>) 30 31 True
         [(demoEnv, 40), (demoEnv, 50)] demoFetcher) = [10, 100, 100]
   \<and> (10 :: Duration) \<le>s interval demoFetcher \<and> (100 :: Duration) \<le>s interval demoFetcher
   \<and> attempt demoFetcher = 0
   \<and> - (2 ^ 63) \<le> 30 - updatedAt demoFetcher \<and> 30 - updatedAt demoFetcher \<le> 2 ^ 63 - 1
   \<and> - (2 ^ 63) \<le> sint (interval demoFetcher) - (30 - updatedAt demoFetcher)
   \<and> sint (interval demoFetcher) - (30 - updatedAt demoFetcher) \<le> 2 ^ 63 - 1
   \<and> sint (fst (pullLoop_start demoEnv 30 31 False demoFetcher)) = 70"
proof -
  have run: "fst (pullLoop (demoEnv\<lparr>vehicleRead := (\<lambda>h. Inl ''timeout'')\<rparr>) 30 31 True
         [(demoEnv, 40), (demoEnv, 50)] demoFetcher) = [10, 100, 100]"
    by (simp add: pullLoop_def pullLoop_start_def pullLoop_tick_def updateWithLog_def
        withBackoff_def Update_def loadBuf_def Since_def hashEqual_def emit_def Reset_def
        AddAttempt_def demoEnv_def demoFetcher_def Let_def)
  have pre: "attempt demoFetcher = 0
   \<and> - (2 ^ 63) \<le> 30 - updatedAt demoFetcher \<and> 30 - updatedAt demoFetcher \<le> 2 ^ 63 - 1
   \<and> - (2 ^ 63) \<le> sint (interval demoFetcher) - (30 - updatedAt demoFetcher)
   \<and> sint (interval demoFetcher) - (30 - updatedAt demoFetcher) \<le> 2 ^ 63 - 1"
    by (simp add: demoFetcher_def)
  have i: "sint (interval demoFetcher) = 100" "updatedAt demoFetcher = 0"
    by (simp_all add: demoFetcher_def)
  note t = C7_waits_at_most_interval
    [where env = "demoEnv\<lparr>vehicleRead := (\<lambda>h. Inl ''timeout'')\<rparr>" and nowSince = 30
       and nowUpd = 31 and forceUpdate = True and f = demoFetcher
       and ticks = "[(demoEnv, 40), (demoEnv, 50)]" and now = 40]
  from t run have "(10 :: Duration) \<le>s interval demoFetcher \<and> (100 :: Duration) \<le>s interval demoFetcher"
    by simp
  moreover have "sint (fst (pullLoop_start demoEnv 30 31 False demoFetcher)) =
      min (sint (interval demoFetcher)) (sint (interval demoFetcher) - (30 - updatedAt demoFetcher))"
    using pre
    by (rule C7_waits_at_most_interval
      [where env = demoEnv and nowSince = 30 and nowUpd = 31 and f = demoFetcher,
        THEN conjunct2, THEN conjunct2, THEN conjunct2, THEN conjunct2, THEN conjunct2, rule_format])
  then have "sint (fst (pullLoop_start demoEnv 30 31 False demoFetcher)) = 70"
    using i by simp
  ultimately show ?thesis using run pre by simp
qed

subsection \<open>C8: the same bytes twice through SideUpdate\<close>

text \<open>
  Claim C8. If \<^verbatim>\<open>SideUpdate(b)\<close> returns without error, then a second
  \<^verbatim>\<open>SideUpdate(b)\<close> right after it returns \<^verbatim>\<open>wasUnchanged = true\<close> (and no error),
  and the two calls together have invoked \<^verbatim>\<open>onUpdate\<close> at most once. The buffer may
  be nil. What the vehicle and the clock answer may differ between the two calls; the
  hash function is the same.
\<close>

theorem C8_SideUpdate_twice:
  assumes ok: "errOf (SideUpdate env1 buf now1 f) = None"
    and hf: "MakeHash env2 = MakeHash env1"
  shows "sameOf (SideUpdate env2 buf now2 (after (SideUpdate env1 buf now1 f)))
    \<and> errOf (SideUpdate env2 buf now2 (after (SideUpdate env1 buf now1 f))) = None
    \<and> length (filter isOnUpdate
         (newEvents f (after (SideUpdate env2 buf now2 (after (SideUpdate env1 buf now1 f)))))) \<le> 1"
proof -
  let ?h = "MakeHash env1 (bytesOf buf)"
  show ?thesis
  proof (cases rule: loadBuf_cases [of f ?h env1 buf True now1])
    case equal
    then show ?thesis
      using hf loadBuf_equal [of env2 buf "after (SideUpdate env1 buf now1 f)" True now2]
      by (simp add: SideUpdate_def newEvents_def)
  next
    case absent
    then show ?thesis
      using hf loadBuf_absent [of f ?h env2 True now2]
      by (simp add: SideUpdate_def newEvents_def)
  next
    case (parse_error b err)
    with ok show ?thesis by (simp add: SideUpdate_def)
  next
    case (write_error b contents err)
    with ok show ?thesis by (simp add: SideUpdate_def)
  next
    case (commit b contents)
    then show ?thesis
      using hf loadBuf_equal [of env2 buf "after (SideUpdate env1 buf now1 f)" True now2]
      by (simp add: SideUpdate_def newEvents_def)
  qed
qed

text \<open>At the concrete fetcher: the first call commits the bytes 1, 2 (parser, mirror
  write, callback), the second only touches the mirror's timestamps.\<close>

theorem C8_SideUpdate_twice_witness:
  "errOf (SideUpdate demoEnv (Some [1, 2]) 50 demoFetcher) = None
   \<and> MakeHash demoEnv = MakeHash demoEnv
   \<and> sameOf (SideUpdate demoEnv (Some [1, 2]) 60
        (after (SideUpdate demoEnv (Some [1, 2]) 50 demoFetcher)))
   \<and> errOf (SideUpdate demoEnv (Some [1, 2]) 60
        (after (SideUpdate demoEnv (Some [1, 2]) 50 demoFetcher))) = None
   \<and> length (filter isOnUpdate (newEvents demoFetcher
        (after (SideUpdate demoEnv (Some [1, 2]) 60
           (after (SideUpdate demoEnv (Some [1, 2]) 50 demoFetcher)))))) \<le> 1
   \<and> trace (after (SideUpdate demoEnv (Some [1, 2]) 60
        (after (SideUpdate demoEnv (Some [1, 2]) 50 demoFetcher)))) =
       [EvParse [1, 2], EvWrite [1, 2], EvOnUpdate 42, EvChtimes 60 60]"
proof -
  have ok: "errOf (SideUpdate demoEnv (Some [1, 2]) 50 demoFetcher) = None"
    by (simp add: SideUpdate_def loadBuf_def hashEqual_def emit_def Reset_def bytesOf_def
        demoEnv_def demoFetcher_def)
  have tr: "trace (after (SideUpdate demoEnv (Some [1, 2]) 60
        (after (SideUpdate demoEnv (Some [1, 2]) 50 demoFetcher)))) =
       [EvParse [1, 2], EvWrite [1, 2], EvOnUpdate 42, EvChtimes 60 60]"
    by (simp add: SideUpdate_def loadBuf_def hashEqual_def emit_def Reset_def bytesOf_def
        demoEnv_def demoFetcher_def)
  show ?thesis
    using C8_SideUpdate_twice [OF ok refl, of 60] ok tr by simp
qed

subsection \<open>C9: the poll loop after Close\<close>

text \<open>
  Claim C9 says that once \<^verbatim>\<open>Close()\<close> has returned the timer loop reads the source
  no more and invokes \<^verbatim>\<open>onUpdate\<close> no more, also when a refresh was due at the moment
  of closing. The code does not keep to this. At the concrete fetcher, \<^verbatim>\<open>Close\<close> has
  returned and the timer has expired, so both cases of the \<^verbatim>\<open>select\<close> are ready. When
  the timer case is taken, the loop runs a whole update: it reads the source, parses,
  writes the mirror, commits and invokes the callback with 42, and arms the timer again
  with 100. Only when the other case is taken does the loop return. (For any fetcher and
  any source, a tick taken after \<^verbatim>\<open>Close\<close> calls \<^verbatim>\<open>vehicle.Read\<close>: lemma
  \<open>tick_after_Close\<close>.)
\<close>

theorem C9_tick_after_Close:
  "snd (Close demoFetcher) = demoFetcher\<lparr>ctxDone := True\<rparr>
   \<and> selectReady True (demoFetcher\<lparr>ctxDone := True\<rparr>) TimerC
   \<and> selectReady True (demoFetcher\<lparr>ctxDone := True\<rparr>) CtxDone
   \<and> pullLoop_select demoEnv 60 True TimerC (demoFetcher\<lparr>ctxDone := True\<rparr>) =
       Some (Some 100,
         demoFetcher\<lparr>ctxDone := True, updatedAt := 60, hash := 2,
           trace := [EvRead 0, EvParse [1, 2], EvWrite [1, 2], EvOnUpdate 42]\<rparr>)
   \<and> pullLoop_select demoEnv 60 True CtxDone (demoFetcher\<lparr>ctxDone := True\<rparr>) =
       Some (None, demoFetcher\<lparr>ctxDone := True\<rparr>)"
  by (simp add: Close_def selectReady_def pullLoop_select_def pullLoop_tick_def updateWithLog_def
      withBackoff_def Update_def loadBuf_def hashEqual_def emit_def Reset_def Let_def
      demoEnv_def demoFetcher_def)


subsection \<open>C10: the value component\<close>

text \<open>
  Claim C10. When \<^verbatim>\<open>Update\<close> or \<^verbatim>\<open>SideUpdate\<close> returns \<^verbatim>\<open>wasUnchanged = true\<close>
  or an error, the value it returns is the zero value of \<open>V\<close>. A value other than the
  zero value comes only from a call that has committed new content: it returns
  \<^verbatim>\<open>wasUnchanged = false\<close> and no error, the stored fingerprint has changed and
  \<open>updatedAt\<close> is the time of the call. (The fetcher keeps no parsed value, so there
  is no earlier value a call could hand out.)
\<close>

theorem C10_zero_value_unless_committed:
  "(sameOf (Update env now f) \<or> errOf (Update env now f) \<noteq> None
      \<longrightarrow> valOf (Update env now f) = Empty env)
   \<and> (valOf (Update env now f) \<noteq> Empty env \<longrightarrow>
        \<not> sameOf (Update env now f) \<and> errOf (Update env now f) = None
      \<and> hash (after (Update env now f)) \<noteq> hash f
      \<and> updatedAt (after (Update env now f)) = now)
   \<and> (sameOf (SideUpdate env buf now f) \<or> errOf (SideUpdate env buf now f) \<noteq> None
      \<longrightarrow> valOf (SideUpdate env buf now f) = Empty env)
   \<and> (valOf (SideUpdate env buf now f) \<noteq> Empty env \<longrightarrow>
        \<not> sameOf (SideUpdate env buf now f) \<and> errOf (SideUpdate env buf now f) = None
      \<and> hash (after (SideUpdate env buf now f)) \<noteq> hash f
      \<and> updatedAt (after (SideUpdate env buf now f)) = now)"
proof -
  have side: "(sameOf (SideUpdate env buf now f) \<or> errOf (SideUpdate env buf now f) \<noteq> None
      \<longrightarrow> valOf (SideUpdate env buf now f) = Empty env)
   \<and> (valOf (SideUpdate env buf now f) \<noteq> Empty env \<longrightarrow>
        \<not> sameOf (SideUpdate env buf now f) \<and> errOf (SideUpdate env buf now f) = None
      \<and> hash (after (SideUpdate env buf now f)) \<noteq> hash f
      \<and> updatedAt (after (SideUpdate env buf now f)) = now)"
    using loadBuf_value [of env buf "MakeHash env (bytesOf buf)" True now f]
    unfolding SideUpdate_def by metis
  have upd: "(sameOf (Update env now f) \<or> errOf (Update env now f) \<noteq> None
      \<longrightarrow> valOf (Update env now f) = Empty env)
   \<and> (valOf (Update env now f) \<noteq> Empty env \<longrightarrow>
        \<not> sameOf (Update env now f) \<and> errOf (Update env now f) = None
      \<and> hash (after (Update env now f)) \<noteq> hash f
      \<and> updatedAt (after (Update env now f)) = now)"
  proof (cases "vehicleRead env (hash f)")
    case (Inl e)
    then show ?thesis by (simp add: Update_def)
  next
    case (Inr p)
    obtain b h where p: "p = (b, h)" by (cases p)
    have u: "Update env now f =
        loadBuf env b h (vehicleType env \<noteq> File) now (emit [EvRead (hash f)] f)"
      using Inr p by (simp add: Update_def)
    have e: "hash (emit [EvRead (hash f)] f) = hash f" by (simp add: emit_def)
    show ?thesis
      using loadBuf_value [of env b h "vehicleType env \<noteq> File" now "emit [EvRead (hash f)] f"]
      unfolding u e by metis
  qed
  from upd side show ?thesis by blast
qed

text \<open>At the concrete fetcher: the source serves the bytes 1, 2, which parse to 42;
  pushing in the empty buffer fails and returns the zero value 0.\<close>

theorem C10_zero_value_unless_committed_witness:
  "valOf (Update demoEnv 50 demoFetcher) \<noteq> Empty demoEnv
   \<and> valOf (Update demoEnv 50 demoFetcher) = 42
   \<and> \<not> sameOf (Update demoEnv 50 demoFetcher) \<and> errOf (Update demoEnv 50 demoFetcher) = None
   \<and> hash (after (Update demoEnv 50 demoFetcher)) \<noteq> hash demoFetcher
   \<and> updatedAt (after (Update demoEnv 50 demoFetcher)) = 50
   \<and> errOf (SideUpdate demoEnv (Some []) 50 (demoFetcher\<lparr>hash := 2\<rparr>)) \<noteq> None
   \<and> valOf (SideUpdate demoEnv (Some []) 50 (demoFetcher\<lparr>hash := 2\<rparr>)) = Empty demoEnv"
proof -
  have v: "valOf (Update demoEnv 50 demoFetcher) = 42"
    by (simp add: Update_def loadBuf_def hashEqual_def emit_def Reset_def demoEnv_def
        demoFetcher_def)
  have e: "errOf (SideUpdate demoEnv (Some []) 50 (demoFetcher\<lparr>hash := 2\<rparr>)) \<noteq> None"
    by (simp add: SideUpdate_def loadBuf_def hashEqual_def emit_def AddAttempt_def bytesOf_def
        demoEnv_def demoFetcher_def)
  have z: "Empty demoEnv = 0" by (simp add: demoEnv_def)
  show ?thesis
    using C10_zero_value_unless_committed [of demoEnv 50 demoFetcher "Some []"]
      C10_zero_value_unless_committed [of demoEnv 50 "demoFetcher\<lparr>hash := 2\<rparr>" "Some []"]
      v e z
    by simp
qed

end
